theory Spec2Isabelle
  imports Main "HOL-Library.Finite_Map"
begin

section \<open>JavaScript values\<close>

text \<open>
  The client (\<^verbatim>\<open>src/frontend/app.js\<close>) works on parsed JSON and on object literals.
  A value is one of the JSON shapes plus \<^verbatim>\<open>undefined\<close>. Numbers are integers here
  (the code never computes with them; it only tests them for truthiness and prints them),
  strings are lists of code units, and an object is a finite map from property names to
  values. Strict equality \<^verbatim>\<open>===\<close> and membership in a \<^verbatim>\<open>Set\<close> or \<^verbatim>\<open>Map\<close> are
  equality of values: the keys compared in this code (record ids, run ids, session ids,
  statuses) are JSON scalars.
\<close>

datatype jsval =
    JUndefined
  | JNull
  | JBool bool
  | JNum int
  | JStr string
  | JArr "jsval list"
  | JObj "(string, jsval) fmap"

type_synonym jsobj = "(string, jsval) fmap"

text \<open>\<^verbatim>\<open>Boolean(v)\<close>, the test behind \<^verbatim>\<open>!v\<close>, \<^verbatim>\<open>v && w\<close>, \<^verbatim>\<open>v || w\<close> and \<^verbatim>\<open>filter(Boolean)\<close>.\<close>

fun truthy :: "jsval \<Rightarrow> bool" where
  "truthy JUndefined = False"
| "truthy JNull = False"
| "truthy (JBool b) = b"
| "truthy (JNum n) = (n \<noteq> 0)"
| "truthy (JStr s) = (s \<noteq> [])"
| "truthy (JArr xs) = True"
| "truthy (JObj kvs) = True"

definition nullish :: "jsval \<Rightarrow> bool" where
  "nullish v = (v = JUndefined \<or> v = JNull)"

text \<open>\<^verbatim>\<open>a || b\<close> and \<^verbatim>\<open>a ?? b\<close>.\<close>

definition jor :: "jsval \<Rightarrow> jsval \<Rightarrow> jsval" where
  "jor a b = (if truthy a then a else b)"

definition jcoalesce :: "jsval \<Rightarrow> jsval \<Rightarrow> jsval" where
  "jcoalesce a b = (if nullish a then b else a)"

text \<open>Reading a property of an object: a missing property reads as \<^verbatim>\<open>undefined\<close>.\<close>

definition get :: "jsobj \<Rightarrow> string \<Rightarrow> jsval" where
  "get obj k = (case fmlookup obj k of None \<Rightarrow> JUndefined | Some v \<Rightarrow> v)"

text \<open>
  \<^verbatim>\<open>v.k\<close> on a value that is not \<^verbatim>\<open>null\<close> or \<^verbatim>\<open>undefined\<close>: an object answers with its
  property, every other value has none of the property names used here. On \<^verbatim>\<open>null\<close> and
  \<^verbatim>\<open>undefined\<close> the read throws a TypeError; the callers below guard those places
  (\<open>optchain\<close> is \<^verbatim>\<open>v?.k\<close>, which reads \<^verbatim>\<open>undefined\<close> there).
\<close>

fun jprop :: "jsval \<Rightarrow> string \<Rightarrow> jsval" where
  "jprop (JObj kvs) k = get kvs k"
| "jprop v k = JUndefined"

definition optchain :: "jsval \<Rightarrow> string \<Rightarrow> jsval" where
  "optchain v k = (if nullish v then JUndefined else jprop v k)"

text \<open>\<^verbatim>\<open>String(v)\<close>.\<close>

fun digits :: "nat \<Rightarrow> string" where
  "digits n =
     (if n < 10 then [char_of (48 + n)]
      else digits (n div 10) @ [char_of (48 + n mod 10)])"

declare digits.simps [simp del]

fun join_comma :: "string list \<Rightarrow> string" where
  "join_comma [] = []"
| "join_comma [s] = s"
| "join_comma (s # t # ss) = s @ '','' @ join_comma (t # ss)"

fun toStr :: "jsval \<Rightarrow> string" where
  "toStr JUndefined = ''undefined''"
| "toStr JNull = ''null''"
| "toStr (JBool b) = (if b then ''true'' else ''false'')"
| "toStr (JNum n) = (if n < 0 then CHR ''-'' # digits (nat (- n)) else digits (nat n))"
| "toStr (JStr s) = s"
| "toStr (JArr xs) =
     join_comma (map (\<lambda>x. if x = JUndefined \<or> x = JNull then [] else toStr x) xs)"
| "toStr (JObj kvs) = ''[object Object]''"

text \<open>\<^verbatim>\<open>{...a, ...b}\<close>: the properties of \<open>b\<close> laid over those of \<open>a\<close>.\<close>

definition spread :: "jsobj \<Rightarrow> jsobj \<Rightarrow> jsobj" where
  "spread a b = fmadd a b"

text \<open>\<^verbatim>\<open>Array.prototype.findIndex\<close>; \<open>None\<close> is the result \<^verbatim>\<open>-1\<close>.\<close>

fun findIndex :: "('a \<Rightarrow> bool) \<Rightarrow> 'a list \<Rightarrow> nat option" where
  "findIndex P [] = None"
| "findIndex P (x # xs) = (if P x then Some 0 else map_option Suc (findIndex P xs))"


section \<open>Application state\<close>

text \<open>
  The outcome of \<^verbatim>\<open>await api(...)\<close>: the promise rejects (transport error, timeout,
  HTTP error, \<^verbatim>\<open>ok: false\<close>, a body that parses to \<^verbatim>\<open>null\<close>) or resolves to the parsed
  body, which is then not \<^verbatim>\<open>null\<close>.
\<close>

datatype response = Failed | Ok jsval

text \<open>
  What a call throws in this code: the rejection of an awaited request, or the TypeError
  of reading a property of \<^verbatim>\<open>null\<close> or \<^verbatim>\<open>undefined\<close> and of calling what is no function.
\<close>

datatype error = Rejected | TypeError

text \<open>
  Work the event loop still holds for a run poller: a status request in flight, or the
  timer of \<^verbatim>\<open>setTimeout(() => pollRun(runId), RUN_POLL_MS)\<close> with its delay.
\<close>

datatype task = Fetching jsval | Sleeping nat jsval

text \<open>
  The \<^verbatim>\<open>state\<close> object, as far as the history and run tracking code reads and writes it.
  \<open>persisted\<close> is the array last written under \<^verbatim>\<open>HISTORY_KEY\<close> in \<^verbatim>\<open>localStorage\<close>;
  \<open>storageWritable\<close> says whether \<^verbatim>\<open>localStorage.setItem\<close> succeeds (it throws when the
  quota is exceeded or storage is disabled, and \<^verbatim>\<open>saveHistory\<close> swallows that).
  \<open>pendingMessage\<close> is the handle of the in-progress indicator node and \<open>timeline\<close> the
  indicator nodes mounted in the page; everything else of the page is rendering and is
  left out, as are the drawer and form flags. \<open>tasks\<close> is what the event loop holds for
  run pollers and \<open>requests\<close> the run ids of the status requests sent so far.
\<close>

record app_state =
  history :: "jsobj list"
  activeHistoryId :: jsval
  pendingRunId :: jsval
  pendingMessage :: "nat option"
  timeline :: "nat list"
  pendingSessions :: "jsval set"
  runningRunIds :: "jsval set"
  runningBySession :: "jsval \<rightharpoonup> jsval"
  persisted :: "jsobj list"
  storageWritable :: bool
  tasks :: "task list"
  requests :: "jsval list"

definition RUN_POLL_MS :: nat where
  "RUN_POLL_MS = 3500"


section \<open>Record store\<close>

text \<open>\<^verbatim>\<open>saveHistory\<close>: write the first 100 records; a failing write is swallowed.\<close>

definition saveHistory :: "app_state \<Rightarrow> app_state" where
  "saveHistory st =
     (if storageWritable st then st\<lparr>persisted := take 100 (history st)\<rparr> else st)"

text \<open>
  \<^verbatim>\<open>mapRunToHistory\<close>. \<open>now\<close> is \<^verbatim>\<open>new Date().toISOString()\<close> at the call.
\<close>

definition mapRunToHistory :: "string \<Rightarrow> jsval \<Rightarrow> jsobj" where
  "mapRunToHistory now run =
     (let createdAt = jor (jprop run ''created_at'') (JStr now);
          updatedAt = jor (jor (jprop run ''finished_at'') (jprop run ''created_at'')) createdAt
      in fmap_of_list
        [(''id'', jprop run ''id''),
         (''sessionId'', jor (jprop run ''session_id'') JNull),
         (''createdAt'', createdAt),
         (''updatedAt'', updatedAt),
         (''query'', jor (jprop run ''query'') (JObj fmempty)),
         (''xlsPath'', JNull),
         (''matchesCount'', JNull),
         (''referenceOptionsCount'', JNull),
         (''selectedReferenceDrug'', jor (jprop run ''selected_reference_drug'') JNull),
         (''selectionJsonPath'', jor (jprop run ''selection_file_path'') JNull),
         (''routerOutputPath'', jor (jprop run ''router_output_path'') JNull),
         (''analysisPreview'',
            if truthy (jprop run ''router_output_text'')
            then JStr (take 3500 (toStr (jprop run ''router_output_text''))) else JNull),
         (''analysisText'', jor (jprop run ''router_output_text'') JNull),
         (''selectionRows'',
            jor (optchain (jprop run ''selection_payload'') ''selected_reference_rows'') JNull),
         (''runId'', jprop run ''id''),
         (''synopsisRunId'', JNull),
         (''synopsisDocxUrl'', JNull),
         (''synopsisStatus'', JNull)])"

text \<open>
  The merge of \<^verbatim>\<open>loadHistoryFromServer\<close> (lines 177 to 185): the server projections, then
  the local records no projection supersedes. \<open>clock i\<close> is the time read while
  projecting the \<open>i\<close>-th run.
\<close>

definition reconcile :: "(nat \<Rightarrow> string) \<Rightarrow> jsval list \<Rightarrow> jsobj list \<Rightarrow> jsobj list" where
  "reconcile clock runs local =
     (let serverItems = map (\<lambda>(i, r). mapRunToHistory (clock i) r) (enumerate 0 runs);
          serverIds = set (map (\<lambda>h. get h ''runId'') serverItems);
          serverSessions = set (filter truthy (map (\<lambda>h. get h ''sessionId'') serverItems));
          localOnly = filter (\<lambda>h.
             if truthy (get h ''runId'') \<and> get h ''runId'' \<in> serverIds then False
             else if truthy (get h ''sessionId'') \<and> get h ''sessionId'' \<in> serverSessions
               then False
             else True) local
      in serverItems @ localOnly)"


text \<open>
  \<^verbatim>\<open>handleSearchResult\<close>: a search with matches puts a new record at the front and makes
  it the active one. \<open>newId\<close> is \<^verbatim>\<open>cryptoId()\<close>, \<open>t1\<close> and \<open>t2\<close> the two clock reads.
  \<open>searchRecord\<close> is the object literal \<^verbatim>\<open>rec\<close> of the function.
\<close>

definition searchRecord :: "string \<Rightarrow> string \<Rightarrow> string \<Rightarrow> jsval \<Rightarrow> jsobj" where
  "searchRecord newId t1 t2 result = fmap_of_list
     [(''id'', JStr newId),
      (''sessionId'', jprop result ''session_id''),
      (''createdAt'', JStr t1),
      (''updatedAt'', JStr t2),
      (''query'', jprop result ''query''),
      (''xlsPath'', jprop result ''xls_path''),
      (''matchesCount'', jprop result ''matches_count''),
      (''referenceOptionsCount'', jprop result ''reference_options_count''),
      (''selectedReferenceDrug'', JNull),
      (''selectionJsonPath'', JNull),
      (''routerOutputPath'', JNull),
      (''analysisPreview'', JNull),
      (''analysisText'', JNull),
      (''selectionRows'', JNull),
      (''runId'', JNull)]"

definition handleSearchResult :: "string \<Rightarrow> string \<Rightarrow> string \<Rightarrow> jsval \<Rightarrow> app_state \<Rightarrow> app_state" where
  "handleSearchResult newId t1 t2 result st =
     (if \<not> truthy (jprop result ''matches_count'') then st
      else saveHistory (st\<lparr>history := searchRecord newId t1 t2 result # history st,
                            activeHistoryId := JStr newId\<rparr>))"


section \<open>Patch engine\<close>

text \<open>\<^verbatim>\<open>patchHistory(sessionId, patch)\<close>.\<close>

definition patchHistory :: "jsval \<Rightarrow> jsobj \<Rightarrow> app_state \<Rightarrow> app_state" where
  "patchHistory sessionId patch st =
     (case findIndex (\<lambda>h. get h ''sessionId'' = sessionId) (history st) of
        None \<Rightarrow> st
      | Some idx \<Rightarrow>
          let hs = (history st)[idx := spread (history st ! idx) patch];
              st1 = st\<lparr>history := hs, activeHistoryId := get (hs ! idx) ''id''\<rparr>;
              st2 = (if idx > 0
                     then st1\<lparr>history := (hs ! idx) # (take idx hs @ drop (Suc idx) hs)\<rparr>
                     else st1)
          in saveHistory st2)"

text \<open>\<^verbatim>\<open>patchHistoryByRunId(runId, patch)\<close>.\<close>

definition patchHistoryByRunId :: "jsval \<Rightarrow> jsobj \<Rightarrow> app_state \<Rightarrow> app_state" where
  "patchHistoryByRunId runId patch st =
     (case findIndex (\<lambda>h. get h ''runId'' = runId) (history st) of
        None \<Rightarrow> st
      | Some idx \<Rightarrow>
          saveHistory (st\<lparr>history := (history st)[idx := spread (history st ! idx) patch]\<rparr>))"

text \<open>\<^verbatim>\<open>updateHistoryWithSynopsis\<close>.\<close>

definition updateHistoryWithSynopsis :: "jsval \<Rightarrow> jsval \<Rightarrow> app_state \<Rightarrow> app_state" where
  "updateHistoryWithSynopsis runId synopsis st =
     (if \<not> truthy runId \<or> \<not> truthy synopsis then st
      else patchHistoryByRunId runId (fmap_of_list
        [(''synopsisRunId'', jor (jprop synopsis ''id'') JNull),
         (''synopsisDocxUrl'', jor (jprop synopsis ''download_url'') JNull),
         (''synopsisStatus'', jor (jprop synopsis ''status'') JNull)]) st)"

text \<open>\<^verbatim>\<open>updateHistoryFromChoose\<close>; \<open>now\<close> is the clock read in the patch literal.\<close>

definition updateHistoryFromChoose :: "string \<Rightarrow> jsval \<Rightarrow> app_state \<Rightarrow> app_state" where
  "updateHistoryFromChoose now result st =
     patchHistory (jprop result ''session_id'') (fmap_of_list
       [(''updatedAt'', JStr now),
        (''selectedReferenceDrug'', jprop result ''selected_reference_drug''),
        (''selectionJsonPath'', jprop result ''saved_json_path''),
        (''selectionRows'',
           jor (optchain (jprop result ''selection_payload'') ''selected_reference_rows'') JNull),
        (''runId'', jor (jprop result ''run_id'') JNull)]) st"

text \<open>\<^verbatim>\<open>updateHistoryFromPipeline\<close>.\<close>

definition pipelinePatch :: "string \<Rightarrow> jsval \<Rightarrow> jsobj" where
  "pipelinePatch now result =
     (let s = jor (jprop result ''selection'') (JObj fmempty);
          r = jor (jprop result ''router'') (JObj fmempty)
      in fmap_of_list
       [(''updatedAt'', JStr now),
        (''selectedReferenceDrug'', jprop s ''selected_reference_drug''),
        (''selectionJsonPath'', jprop s ''saved_json_path''),
        (''routerOutputPath'', jor (jprop r ''saved_response_path'') JNull),
        (''analysisPreview'',
           if truthy (jprop r ''analysis_text'')
           then JStr (take 3500 (toStr (jprop r ''analysis_text''))) else JNull),
        (''analysisText'',
           if jprop r ''analysis_text'' \<noteq> JUndefined
           then JStr (toStr (jprop r ''analysis_text'')) else JNull),
        (''selectionRows'',
           jor (optchain (jprop s ''selection_payload'') ''selected_reference_rows'') JNull),
        (''runId'', jor (jprop s ''run_id'') JNull)])"

definition updateHistoryFromPipeline :: "string \<Rightarrow> jsval \<Rightarrow> app_state \<Rightarrow> app_state" where
  "updateHistoryFromPipeline now result st =
     patchHistory (jprop (jor (jprop result ''selection'') (JObj fmempty)) ''session_id'')
       (pipelinePatch now result) st"

text \<open>\<^verbatim>\<open>buildPipelineResultFromRun\<close>.\<close>

definition buildPipelineResultFromRun :: "jsval \<Rightarrow> jsval" where
  "buildPipelineResultFromRun run =
     (let selectionPayload = jor (jprop run ''selection_payload'') JNull
      in JObj (fmap_of_list
        [(''selection'', JObj (fmap_of_list
           [(''run_id'', jprop run ''id''),
            (''session_id'', jprop run ''session_id''),
            (''saved_json_path'', jor (jprop run ''selection_file_path'') JNull),
            (''selected_reference_drug'', jor (jprop run ''selected_reference_drug'') JNull),
            (''selected_reference_rows_count'',
               jcoalesce (jprop run ''selection_rows_count'') JNull),
            (''selection_payload'', selectionPayload)])),
         (''router'', JObj (fmap_of_list
           [(''reference_drug'', jor (jprop run ''selected_reference_drug'') JNull),
            (''saved_response_path'', jor (jprop run ''router_output_path'') JNull),
            (''analysis_text'',
               if jprop run ''router_output_text'' \<noteq> JUndefined
               then jprop run ''router_output_text'' else JNull)]))]))"

text \<open>
  \<^verbatim>\<open>ensureHistoryFromRun\<close>: a run no record carries yet gets a new record at the front.
  \<open>runRecord\<close> is the object literal \<^verbatim>\<open>rec\<close> of the function.
\<close>

definition runRecord :: "string \<Rightarrow> string \<Rightarrow> string \<Rightarrow> jsval \<Rightarrow> jsobj" where
  "runRecord newId t1 t2 run = fmap_of_list
     [(''id'', JStr newId),
      (''sessionId'', jor (jprop run ''session_id'') JNull),
      (''createdAt'', jor (jprop run ''created_at'') (JStr t1)),
      (''updatedAt'',
         jor (jor (jprop run ''finished_at'') (jprop run ''created_at'')) (JStr t2)),
      (''query'', jor (jprop run ''query'') (JObj fmempty)),
      (''xlsPath'', JNull),
      (''matchesCount'', JNull),
      (''referenceOptionsCount'', JNull),
      (''selectedReferenceDrug'', jor (jprop run ''selected_reference_drug'') JNull),
      (''selectionJsonPath'', jor (jprop run ''selection_file_path'') JNull),
      (''routerOutputPath'', jor (jprop run ''router_output_path'') JNull),
      (''analysisPreview'',
         if truthy (jprop run ''router_output_text'')
         then JStr (take 3500 (toStr (jprop run ''router_output_text''))) else JNull),
      (''analysisText'', jor (jprop run ''router_output_text'') JNull),
      (''selectionRows'',
         jor (optchain (jprop run ''selection_payload'') ''selected_reference_rows'') JNull),
      (''runId'', jprop run ''id'')]"

definition ensureHistoryFromRun :: "string \<Rightarrow> string \<Rightarrow> string \<Rightarrow> jsval \<Rightarrow> app_state \<Rightarrow> app_state" where
  "ensureHistoryFromRun newId t1 t2 run st =
     (if list_ex (\<lambda>h. get h ''runId'' = jprop run ''id'') (history st) then st
      else saveHistory (st\<lparr>history := runRecord newId t1 t2 run # history st\<rparr>))"


section \<open>Pending tracker and run poller\<close>

text \<open>\<^verbatim>\<open>removeNode\<close>, on the mounted indicator nodes.\<close>

definition removeNode :: "nat option \<Rightarrow> nat list \<Rightarrow> nat list" where
  "removeNode node mounted = (case node of None \<Rightarrow> mounted | Some n \<Rightarrow> removeAll n mounted)"

text \<open>\<^verbatim>\<open>getRunningRunIdForRecord\<close>.\<close>

definition getRunningRunIdForRecord :: "jsobj option \<Rightarrow> app_state \<Rightarrow> jsval" where
  "getRunningRunIdForRecord record st =
     (case record of
        None \<Rightarrow> JNull
      | Some r \<Rightarrow>
          if truthy (get r ''runId'') \<and> get r ''runId'' \<in> runningRunIds st
            then get r ''runId''
          else if truthy (get r ''sessionId'') \<and> get r ''sessionId'' \<in> dom (runningBySession st)
            then jor (case runningBySession st (get r ''sessionId'') of
                        None \<Rightarrow> JUndefined | Some v \<Rightarrow> v) JNull
          else JNull)"

text \<open>
  \<^verbatim>\<open>pollRun(runId)\<close> up to its \<^verbatim>\<open>await\<close>: the status request goes out.
\<close>

definition pollRun :: "jsval \<Rightarrow> app_state \<Rightarrow> app_state" where
  "pollRun runId st =
     st\<lparr>tasks := tasks st @ [Fetching runId], requests := requests st @ [runId]\<rparr>"

text \<open>
  Lines 103 to 109 of \<^verbatim>\<open>pollRun\<close>: the pending indicator is dropped (its node is removed
  only when the tracked key is this run) and the running marks of the run and of its
  session are cleared.
\<close>

definition clearPendingForRun :: "jsval \<Rightarrow> jsval \<Rightarrow> app_state \<Rightarrow> app_state" where
  "clearPendingForRun runId run st =
     (let st1 = (if pendingMessage st \<noteq> None \<and> pendingRunId st = runId
                 then st\<lparr>timeline := removeNode (pendingMessage st) (timeline st)\<rparr>
                 else st);
          st2 = st1\<lparr>pendingMessage := None, pendingRunId := JNull,
                   runningRunIds := runningRunIds st1 - {runId}\<rparr>
      in if truthy (jprop run ''session_id'')
            \<and> (case runningBySession st2 (jprop run ''session_id'') of
                  None \<Rightarrow> JUndefined | Some v \<Rightarrow> v) = runId
         then st2\<lparr>runningBySession := (runningBySession st2)(jprop run ''session_id'' := None)\<rparr>
         else st2)"

text \<open>\<^verbatim>\<open>getActiveRecord\<close>; \<open>None\<close> is its \<^verbatim>\<open>null\<close>.\<close>

definition getActiveRecord :: "app_state \<Rightarrow> jsobj option" where
  "getActiveRecord st = find (\<lambda>h. get h ''id'' = activeHistoryId st) (history st)"

text \<open>\<^verbatim>\<open>isRunRelatedToRecord(run, record)\<close>.\<close>

definition isRunRelatedToRecord :: "jsval \<Rightarrow> jsobj option \<Rightarrow> bool" where
  "isRunRelatedToRecord run record =
     (case record of
        None \<Rightarrow> False
      | Some r \<Rightarrow>
          if \<not> truthy run then False
          else if truthy (get r ''runId'') \<and> jprop run ''id'' = get r ''runId'' then True
          else if truthy (get r ''sessionId'') \<and> truthy (jprop run ''session_id'')
                  \<and> get r ''sessionId'' = jprop run ''session_id'' then True
          else False)"

text \<open>
  \<^verbatim>\<open>buildReferenceTable(rows)\<close> runs \<^verbatim>\<open>rows.slice(0, 20).forEach((row) => ...)\<close> and reads
  \<^verbatim>\<open>row.trade_name\<close> and five more properties of every row. Only an array has both
  methods, so every other value of \<open>rows\<close> ends in a TypeError, and so does a row among
  the first twenty that is \<^verbatim>\<open>null\<close> or \<^verbatim>\<open>undefined\<close>. The table built otherwise is
  rendering and is left out.
\<close>

definition buildReferenceTable :: "jsval \<Rightarrow> error + unit" where
  "buildReferenceTable rows =
     (case rows of
        JArr xs \<Rightarrow> if list_ex nullish (take 20 xs) then Inl TypeError else Inr ()
      | _ \<Rightarrow> Inl TypeError)"

text \<open>
  \<^verbatim>\<open>appendPipeline(result)\<close> builds the message of a finished analysis and mounts it.
  The message is rendering and is left out; what is kept is whether the function
  returns. Its one call that can throw is \<^verbatim>\<open>buildReferenceTable\<close>, made when the
  selection payload carries rows, and it comes before the message is mounted, so a throw
  leaves the page as it was. (\<^verbatim>\<open>hydrateSynopsisSection\<close> is \<^verbatim>\<open>async\<close> and catches its own
  errors.)
\<close>

definition appendPipeline :: "jsval \<Rightarrow> error + unit" where
  "appendPipeline result =
     (let s = jor (jprop result ''selection'') (JObj fmempty)
      in if truthy (jprop s ''selection_payload'')
            \<and> truthy (jprop (jprop s ''selection_payload'') ''selected_reference_rows'')
         then buildReferenceTable (jprop (jprop s ''selection_payload'') ''selected_reference_rows'')
         else Inr ())"

text \<open>
  Lines 114 to 117 of \<^verbatim>\<open>pollRun\<close>: the result is shown when the active record is
  related to the run.
\<close>

definition appendPipelineIfRelated :: "jsval \<Rightarrow> jsval \<Rightarrow> app_state \<Rightarrow> error + unit" where
  "appendPipelineIfRelated run result st =
     (let activeRecord = getActiveRecord st
      in if activeRecord \<noteq> None \<and> isRunRelatedToRecord run activeRecord
         then appendPipeline result
         else Inr ())"

text \<open>
  The \<^verbatim>\<open>try\<close> block of \<^verbatim>\<open>pollRun(runId)\<close> from the point where the request settles:
  \<open>Inl e\<close> when it throws \<open>e\<close>, \<open>Inr ()\<close> when it runs to its end or returns, each with
  the state reached. A rejected request throws at the \<^verbatim>\<open>await\<close>, and \<^verbatim>\<open>data.run\<close> throws
  on a body that is \<^verbatim>\<open>null\<close>. A missing run and a status other than \<^verbatim>\<open>"done"\<close> arm the
  timer and return. On \<^verbatim>\<open>"done"\<close> the pending state is cleared, the record is
  materialised if need be and patched with the run's result, and the result is shown if
  the active record is related to the run; showing it may throw, after the state has
  been changed. \<open>newId\<close>, \<open>t1\<close>, \<open>t2\<close> go to \<open>ensureHistoryFromRun\<close>, \<open>now\<close> to
  \<open>updateHistoryFromPipeline\<close>.
\<close>

definition pollRunTry ::
  "jsval \<Rightarrow> response \<Rightarrow> string \<Rightarrow> string \<Rightarrow> string \<Rightarrow> string \<Rightarrow> app_state
     \<Rightarrow> (error + unit) \<times> app_state" where
  "pollRunTry runId resp newId t1 t2 now st =
     (case resp of
        Failed \<Rightarrow> (Inl Rejected, st)
      | Ok data \<Rightarrow>
          if nullish data then (Inl TypeError, st)
          else
            let run = jprop data ''run'' in
            if \<not> truthy run \<or> jprop run ''status'' \<noteq> JStr ''done''
            then (Inr (), st\<lparr>tasks := tasks st @ [Sleeping RUN_POLL_MS runId]\<rparr>)
            else
              let st1 = clearPendingForRun runId run st;
                  result = buildPipelineResultFromRun run;
                  st2 = ensureHistoryFromRun newId t1 t2 run st1;
                  st3 = updateHistoryFromPipeline now result st2
              in (appendPipelineIfRelated run result st3, st3))"

text \<open>
  \<^verbatim>\<open>pollRun(runId)\<close> from the point where the request settles, with its \<^verbatim>\<open>catch\<close>:
  whatever the \<^verbatim>\<open>try\<close> block throws, and wherever, the handler arms the timer. So the
  timer is armed after a rejected request, after an answer that is not \<^verbatim>\<open>"done"\<close>, and
  also after a \<^verbatim>\<open>"done"\<close> answer whose result could not be shown.
\<close>

definition pollRunSettled ::
  "jsval \<Rightarrow> response \<Rightarrow> string \<Rightarrow> string \<Rightarrow> string \<Rightarrow> string \<Rightarrow> app_state \<Rightarrow> app_state" where
  "pollRunSettled runId resp newId t1 t2 now st =
     (case pollRunTry runId resp newId t1 t2 now
             (st\<lparr>tasks := remove1 (Fetching runId) (tasks st)\<rparr>) of
        (Inl e, s) \<Rightarrow> s\<lparr>tasks := tasks s @ [Sleeping RUN_POLL_MS runId]\<rparr>
      | (Inr u, s) \<Rightarrow> s)"

text \<open>The timer of a sleeping poller fires: \<^verbatim>\<open>pollRun(runId)\<close> is called again.\<close>

definition timerFires :: "jsval \<Rightarrow> app_state \<Rightarrow> app_state" where
  "timerFires runId st =
     pollRun runId (st\<lparr>tasks := remove1 (Sleeping RUN_POLL_MS runId) (tasks st)\<rparr>)"

text \<open>
  \<open>pollDone\<close> is the test of \<^verbatim>\<open>pollRun\<close> that leads into the done branch. The poller
  ends with a step when that step arms no timer: the answer is \<^verbatim>\<open>"done"\<close> and the
  \<^verbatim>\<open>try\<close> block runs to its end (\<open>pollStopped\<close>).
\<close>

definition pollDone :: "response \<Rightarrow> bool" where
  "pollDone resp =
     (case resp of
        Failed \<Rightarrow> False
      | Ok data \<Rightarrow> truthy (jprop data ''run'') \<and> jprop (jprop data ''run'') ''status'' = JStr ''done'')"

definition pollStopped ::
  "jsval \<Rightarrow> response \<Rightarrow> string \<Rightarrow> string \<Rightarrow> string \<Rightarrow> string \<Rightarrow> app_state \<Rightarrow> bool" where
  "pollStopped runId resp newId t1 t2 now st =
     (pollDone resp
      \<and> fst (pollRunTry runId resp newId t1 t2 now
                (st\<lparr>tasks := remove1 (Fetching runId) (tasks st)\<rparr>)) = Inr ())"

text \<open>
  One poller followed through a list of outcomes of its successive status requests. The
  poller has no bound of its own, so the list is the fuel: when it runs out the last
  request is still in flight.
\<close>

fun awaitPoll ::
  "jsval \<Rightarrow> response list \<Rightarrow> string \<Rightarrow> string \<Rightarrow> string \<Rightarrow> string \<Rightarrow> app_state \<Rightarrow> app_state" where
  "awaitPoll runId [] newId t1 t2 now st = st"
| "awaitPoll runId (resp # rest) newId t1 t2 now st =
     (let st1 = pollRunSettled runId resp newId t1 t2 now st
      in if pollStopped runId resp newId t1 t2 now st then st1
         else awaitPoll runId rest newId t1 t2 now (timerFires runId st1))"

definition runPoller ::
  "jsval \<Rightarrow> response list \<Rightarrow> string \<Rightarrow> string \<Rightarrow> string \<Rightarrow> string \<Rightarrow> app_state \<Rightarrow> app_state" where
  "runPoller runId resps newId t1 t2 now st = awaitPoll runId resps newId t1 t2 now (pollRun runId st)"

text \<open>
  \<^verbatim>\<open>maybeShowRunningForRecord(record)\<close>. \<open>pendingKeyFor\<close> is its \<^verbatim>\<open>pendingKey\<close>; with no
  record both tests of the first guard fail and the function returns. \<open>node\<close> is the
  indicator node \<^verbatim>\<open>appendAnalysisInline\<close> creates.
\<close>

definition pendingKeyFor :: "jsobj \<Rightarrow> app_state \<Rightarrow> jsval" where
  "pendingKeyFor r st =
     jor (getRunningRunIdForRecord (Some r) st) (JStr (''session:'' @ toStr (get r ''sessionId'')))"

definition maybeShowRunningForRecord :: "nat \<Rightarrow> jsobj option \<Rightarrow> app_state \<Rightarrow> app_state" where
  "maybeShowRunningForRecord node record st =
     (case record of
        None \<Rightarrow> st
      | Some r \<Rightarrow>
          let runId = getRunningRunIdForRecord record st;
              localPending = (truthy (get r ''sessionId'') \<and> get r ''sessionId'' \<in> pendingSessions st)
          in if \<not> truthy runId \<and> \<not> localPending then st
             else
               let pendingKey = pendingKeyFor r st in
               if pendingRunId st = pendingKey then st
               else
                 let st1 = st\<lparr>timeline := removeNode (pendingMessage st) (timeline st)\<rparr>;
                     st2 = st1\<lparr>pendingRunId := pendingKey, pendingMessage := Some node,
                              timeline := timeline st1 @ [node]\<rparr>
                 in if truthy runId then pollRun runId st2 else st2)"

text \<open>
  \<^verbatim>\<open>onHistoryClick\<close> on a history entry (not on its delete button) and the
  \<^verbatim>\<open>renderHistoryConversation\<close> it calls: the page is cleared, the pending indicator
  forgotten, the record's messages rendered, and the running state shown again.
\<close>

definition renderHistoryConversation :: "nat \<Rightarrow> jsobj \<Rightarrow> app_state \<Rightarrow> app_state" where
  "renderHistoryConversation node record st =
     maybeShowRunningForRecord node (Some record)
       (st\<lparr>timeline := [], pendingMessage := None, pendingRunId := JNull\<rparr>)"

definition onHistoryClick :: "nat \<Rightarrow> string \<Rightarrow> app_state \<Rightarrow> app_state" where
  "onHistoryClick node historyId st =
     (case find (\<lambda>h. get h ''id'' = JStr historyId) (history st) of
        None \<Rightarrow> st
      | Some record \<Rightarrow>
          renderHistoryConversation node record (st\<lparr>activeHistoryId := get record ''id''\<rparr>))"


section \<open>Properties of the store\<close>

text \<open>
  The values a list of records holds under a key, leaving out \<^verbatim>\<open>null\<close> and
  \<^verbatim>\<open>undefined\<close>; a key is unique when no value occurs twice.
\<close>

definition keyValues :: "string \<Rightarrow> jsobj list \<Rightarrow> jsval list" where
  "keyValues k hs = filter (\<lambda>v. \<not> nullish v) (map (\<lambda>h. get h k) hs)"

definition uniqueKey :: "string \<Rightarrow> jsobj list \<Rightarrow> bool" where
  "uniqueKey k hs = distinct (keyValues k hs)"

definition dedupInvariant :: "jsobj list \<Rightarrow> bool" where
  "dedupInvariant hs = (uniqueKey ''runId'' hs \<and> uniqueKey ''sessionId'' hs)"

text \<open>
  Server run lists as the run service is described: every run has an id of its own, and
  no two runs carry the same session id.
\<close>

definition serverRunsDistinct :: "jsval list \<Rightarrow> bool" where
  "serverRunsDistinct runs =
     (list_all (\<lambda>r. truthy (jprop r ''id'')) runs
      \<and> distinct (map (\<lambda>r. jprop r ''id'') runs)
      \<and> distinct (filter truthy (map (\<lambda>r. jprop r ''session_id'') runs)))"

text \<open>
  A patch is harmless for key \<open>k\<close> of record \<open>r\<close> in store \<open>hs\<close> when it does not name
  \<open>k\<close>, or names the value \<open>r\<close> has already, or names a value that is \<^verbatim>\<open>null\<close>,
  \<^verbatim>\<open>undefined\<close> or held by no record of the store.
\<close>

definition patchKeepsKey :: "string \<Rightarrow> jsobj \<Rightarrow> jsobj \<Rightarrow> jsobj list \<Rightarrow> bool" where
  "patchKeepsKey k p r hs =
     (if k |\<in>| fmdom p then get p k = get r k \<or> get p k \<notin> set (keyValues k hs) else True)"


text \<open>The indicator nodes mounted in the page are exactly the tracked one, if any.\<close>

definition indicatorTracked :: "app_state \<Rightarrow> bool" where
  "indicatorTracked st =
     (timeline st = (case pendingMessage st of None \<Rightarrow> [] | Some n \<Rightarrow> [n]))"

text \<open>A sequence of searches, each with its fresh id and clock reads.\<close>

fun searchInserts :: "(string \<times> string \<times> string \<times> jsval) list \<Rightarrow> app_state \<Rightarrow> app_state" where
  "searchInserts [] st = st"
| "searchInserts ((newId, t1, t2, result) # rest) st =
     searchInserts rest (handleSearchResult newId t1 t2 result st)"


section \<open>Example data\<close>

text \<open>The \<^verbatim>\<open>state\<close> object as the script creates it, with working storage.\<close>

definition initialState :: app_state where
  "initialState =
     \<lparr>history = [], activeHistoryId = JNull, pendingRunId = JNull, pendingMessage = None,
      timeline = [], pendingSessions = {}, runningRunIds = {}, runningBySession = Map.empty,
      persisted = [], storageWritable = True, tasks = [], requests = []\<rparr>"

text \<open>Two records: a local one waiting for its run, and one that has a run.\<close>

definition recA :: jsobj where
  "recA = fmap_of_list
     [(''id'', JStr ''a''), (''sessionId'', JStr ''s1''), (''runId'', JNull),
      (''updatedAt'', JStr ''t0''), (''analysisText'', JStr ''earlier analysis'')]"

definition recB :: jsobj where
  "recB = fmap_of_list
     [(''id'', JStr ''b''), (''sessionId'', JStr ''s2''), (''runId'', JStr ''r2''),
      (''updatedAt'', JStr ''t1''), (''analysisText'', JNull)]"

definition twoRecords :: app_state where
  "twoRecords = initialState\<lparr>history := [recA, recB]\<rparr>"

definition choosePatch :: jsobj where
  "choosePatch = fmap_of_list
     [(''updatedAt'', JStr ''t9''), (''selectedReferenceDrug'', JStr ''Nurofen'')]"


text \<open>A record projected from run \<open>r1\<close> of session \<open>s1\<close>, and that run once finished.\<close>

definition recRun :: jsobj where
  "recRun = fmap_of_list
     [(''id'', JStr ''r1''), (''sessionId'', JStr ''s1''), (''runId'', JStr ''r1''),
      (''updatedAt'', JStr ''t2''), (''analysisText'', JNull)]"

definition doneRun :: jsval where
  "doneRun = JObj (fmap_of_list
     [(''id'', JStr ''r1''), (''session_id'', JStr ''s1''), (''status'', JStr ''done''),
      (''selected_reference_drug'', JStr ''Nurofen''),
      (''router_output_text'', JStr ''final analysis'')])"

definition doneData :: jsval where
  "doneData = JObj (fmap_of_list [(''run'', doneRun)])"

definition runningRun :: jsval where
  "runningRun = JObj (fmap_of_list
     [(''id'', JStr ''r1''), (''session_id'', JStr ''s1''), (''status'', JStr ''running'')])"

definition runningData :: jsval where
  "runningData = JObj (fmap_of_list [(''run'', runningRun)])"

text \<open>
  Run \<open>r1\<close> finished, with a selection payload that carries the reference rows as one
  row object where \<^verbatim>\<open>buildReferenceTable\<close> expects a list of rows.
\<close>

definition doneRunOneRow :: jsval where
  "doneRunOneRow = JObj (fmap_of_list
     [(''id'', JStr ''r1''), (''session_id'', JStr ''s1''), (''status'', JStr ''done''),
      (''selected_reference_drug'', JStr ''Nurofen''),
      (''router_output_text'', JStr ''final analysis''),
      (''selection_payload'', JObj (fmap_of_list
         [(''selected_reference_rows'', JObj (fmap_of_list
            [(''trade_name'', JStr ''Nurofen''), (''country'', JStr ''UK'')]))]))])"

definition doneDataOneRow :: jsval where
  "doneDataOneRow = JObj (fmap_of_list [(''run'', doneRunOneRow)])"

text \<open>
  The operator looks at record \<open>b\<close> while run \<open>r1\<close>, known to be running, belongs to
  another record.
\<close>

definition viewingB :: app_state where
  "viewingB = initialState
     \<lparr>history := [recB, recRun], activeHistoryId := JStr ''b'',
      runningRunIds := {JStr ''r1''},
      runningBySession := [JStr ''s1'' \<mapsto> JStr ''r1'']\<rparr>"

text \<open>A second run of session \<open>s1\<close>, and a run of a session no record knows.\<close>

definition secondRun :: jsval where
  "secondRun = JObj (fmap_of_list
     [(''id'', JStr ''r4''), (''session_id'', JStr ''s1''), (''status'', JStr ''running'')])"

definition newRun :: jsval where
  "newRun = JObj (fmap_of_list
     [(''id'', JStr ''r3''), (''session_id'', JStr ''s3''), (''status'', JStr ''done'')])"

definition searchResult :: jsval where
  "searchResult = JObj (fmap_of_list
     [(''matches_count'', JNum 12), (''reference_options_count'', JNum 2),
      (''session_id'', JStr ''s4'')])"

definition runPatch :: jsobj where
  "runPatch = fmap_of_list
     [(''selectedReferenceDrug'', JStr ''Nurofen''), (''runId'', JStr ''r1'')]"

text \<open>One hundred and one searches, each with matches, numbered in the order made.\<close>

definition manySearches :: "(string \<times> string \<times> string \<times> jsval) list" where
  "manySearches = map (\<lambda>n. (digits n, ''t0'', ''t0'', searchResult)) [0..<101]"

text \<open>Two records whose runs the server reported as running.\<close>

definition twoRunning :: app_state where
  "twoRunning = initialState
     \<lparr>history := [recRun, recB], runningRunIds := {JStr ''r1'', JStr ''r2''},
      runningBySession := [JStr ''s1'' \<mapsto> JStr ''r1'', JStr ''s2'' \<mapsto> JStr ''r2'']\<rparr>"

definition synopsisDone :: jsval where
  "synopsisDone = JObj (fmap_of_list
     [(''id'', JStr ''syn1''), (''status'', JStr ''done''), (''download_url'', JStr ''/dl/1'')])"

definition chooseResult :: jsval where
  "chooseResult = JObj (fmap_of_list
     [(''session_id'', JStr ''s1''), (''selected_reference_drug'', JStr ''Nurofen''),
      (''saved_json_path'', JStr ''sel.json''), (''run_id'', JStr ''r1'')])"


section \<open>Basic facts\<close>

lemma findIndex_None_iff: "findIndex P xs = None \<longleftrightarrow> (\<forall>x \<in> set xs. \<not> P x)"
  by (induction xs) auto

lemma findIndex_Some_bound: "findIndex P xs = Some i \<Longrightarrow> i < length xs"
  by (induction xs arbitrary: i) (auto split: if_splits)

lemma findIndex_Some_holds: "findIndex P xs = Some i \<Longrightarrow> P (xs ! i)"
  by (induction xs arbitrary: i) (auto split: if_splits)

lemma get_spread: "get (spread r p) k = (if k |\<in>| fmdom p then get p k else get r k)"
  by (simp add: get_def spread_def)

lemma spread_twice: "spread (spread r p) p = spread r p"
  unfolding spread_def by (rule fmap_ext) auto

section \<open>The example data, evaluated\<close>

lemma twoRecords_history: "history twoRecords = [recA, recB]"
  by (simp add: twoRecords_def initialState_def)

lemma recA_fields:
  "get recA ''id'' = JStr ''a''" "get recA ''sessionId'' = JStr ''s1''"
  "get recA ''runId'' = JNull" "get recA ''analysisText'' = JStr ''earlier analysis''"
  "get recA ''updatedAt'' = JStr ''t0''"
  by (simp_all add: recA_def get_def)

lemma recB_fields:
  "get recB ''id'' = JStr ''b''" "get recB ''sessionId'' = JStr ''s2''"
  "get recB ''runId'' = JStr ''r2''" "get recB ''analysisText'' = JNull"
  "get recB ''updatedAt'' = JStr ''t1''"
  by (simp_all add: recB_def get_def)

section \<open>The patch engine, step by step\<close>

lemma saveHistory_history: "history (saveHistory st) = history st"
  by (simp add: saveHistory_def)

lemma saveHistory_active: "activeHistoryId (saveHistory st) = activeHistoryId st"
  by (simp add: saveHistory_def)

lemma patchHistory_found:
  assumes "findIndex (\<lambda>h. get h ''sessionId'' = sid) (history st) = Some i"
  shows "patchHistory sid p st =
    saveHistory (st\<lparr>activeHistoryId := get (spread (history st ! i) p) ''id'',
                    history := spread (history st ! i) p # (take i (history st) @ drop (Suc i) (history st))\<rparr>)"
proof -
  have i: "i < length (history st)" using assms by (rule findIndex_Some_bound)
  show ?thesis
  proof (cases i)
    case 0
    with i assms show ?thesis
      by (cases "history st"; cases st) (auto simp: patchHistory_def Let_def saveHistory_def)
  next
    case (Suc n)
    with i assms show ?thesis
      by (simp add: patchHistory_def Let_def)
  qed
qed

lemma patchHistoryByRunId_found:
  assumes "findIndex (\<lambda>h. get h ''runId'' = rid) (history st) = Some i"
  shows "patchHistoryByRunId rid p st =
    saveHistory (st\<lparr>history := (history st)[i := spread (history st ! i) p]\<rparr>)"
  using assms by (simp add: patchHistoryByRunId_def)

lemma findIndex_front: "P x \<Longrightarrow> findIndex P (x # xs) = Some 0"
  by simp

lemma patchHistory_twice:
  assumes "''sessionId'' |\<in>| fmdom p1 \<longrightarrow> get p1 ''sessionId'' = sid"
    and "findIndex (\<lambda>h. get h ''sessionId'' = sid) (history st) = Some i"
  shows "patchHistory sid p2 (patchHistory sid p1 st) =
    saveHistory (st\<lparr>activeHistoryId := get (spread (spread (history st ! i) p1) p2) ''id'',
                    history := spread (spread (history st ! i) p1) p2 # (take i (history st) @ drop (Suc i) (history st))\<rparr>)"
proof -
  let ?m = "spread (history st ! i) p1"
  let ?rest = "take i (history st) @ drop (Suc i) (history st)"
  let ?st1 = "patchHistory sid p1 st"
  have old: "get (history st ! i) ''sessionId'' = sid"
    using findIndex_Some_holds [OF assms(2)] .
  have m: "get ?m ''sessionId'' = sid"
    using assms(1) old by (simp add: get_spread)
  have h1: "history ?st1 = ?m # ?rest"
    by (simp add: patchHistory_found [OF assms(2)] saveHistory_history)
  have f1: "findIndex (\<lambda>h. get h ''sessionId'' = sid) (history ?st1) = Some 0"
    using m by (simp add: h1)
  show ?thesis
    unfolding patchHistory_found [OF f1]
    by (simp add: h1 patchHistory_found [OF assms(2)] saveHistory_def)
qed

lemma patchHistory_idem:
  assumes "''sessionId'' |\<in>| fmdom p \<longrightarrow> get p ''sessionId'' = sid"
  shows "patchHistory sid p (patchHistory sid p st) = patchHistory sid p st"
proof (cases "findIndex (\<lambda>h. get h ''sessionId'' = sid) (history st)")
  case None
  then show ?thesis by (simp add: patchHistory_def)
next
  case (Some i)
  have twice: "patchHistory sid p (patchHistory sid p st) =
    saveHistory (st\<lparr>activeHistoryId := get (spread (spread (history st ! i) p) p) ''id'',
                    history := spread (spread (history st ! i) p) p # (take i (history st) @ drop (Suc i) (history st))\<rparr>)"
    by (rule patchHistory_twice [OF assms Some])
  show ?thesis
    unfolding twice unfolding patchHistory_found [OF Some] by (simp add: spread_twice)
qed

lemma spread_same_dom: "fmdom p1 = fmdom p2 \<Longrightarrow> spread (spread r p1) p2 = spread r p2"
  unfolding spread_def by (rule fmap_ext) (auto simp: fmdom_notD fmdom_notI)

lemma patchHistory_later_wins:
  assumes "''sessionId'' |\<notin>| fmdom p1" and "fmdom p1 = fmdom p2"
  shows "patchHistory sid p2 (patchHistory sid p1 st) = patchHistory sid p2 st"
proof (cases "findIndex (\<lambda>h. get h ''sessionId'' = sid) (history st)")
  case None
  then show ?thesis by (simp add: patchHistory_def)
next
  case (Some i)
  from assms(1) have "''sessionId'' |\<in>| fmdom p1 \<longrightarrow> get p1 ''sessionId'' = sid" by simp
  then have twice: "patchHistory sid p2 (patchHistory sid p1 st) =
    saveHistory (st\<lparr>activeHistoryId := get (spread (spread (history st ! i) p1) p2) ''id'',
                    history := spread (spread (history st ! i) p1) p2 # (take i (history st) @ drop (Suc i) (history st))\<rparr>)"
    by (rule patchHistory_twice [OF _ Some])
  show ?thesis
    unfolding twice unfolding patchHistory_found [OF Some]
    by (simp add: spread_same_dom [OF assms(2)])
qed

lemma patched_record_stays:
  assumes "findIndex (\<lambda>h. get h ''sessionId'' = sid) (history st) = Some i"
  shows "history (patchHistory sid p (patchHistory sid p st)) ! 0 = spread (history st ! i) p
       \<or> history (patchHistory sid p (patchHistory sid p st)) ! 1 = spread (history st ! i) p"
proof -
  let ?m = "spread (history st ! i) p"
  let ?rest = "take i (history st) @ drop (Suc i) (history st)"
  let ?st1 = "patchHistory sid p st"
  have h1: "history ?st1 = ?m # ?rest"
    by (simp add: patchHistory_found [OF assms] saveHistory_history)
  show ?thesis
  proof (cases "findIndex (\<lambda>h. get h ''sessionId'' = sid) (history ?st1)")
    case None
    then have "patchHistory sid p ?st1 = ?st1" by (simp add: patchHistory_def)
    then show ?thesis by (simp add: h1)
  next
    case (Some j)
    show ?thesis
    proof (cases j)
      case 0
      with Some have "get ?m ''sessionId'' = sid"
        using findIndex_Some_holds [OF Some] by (simp add: h1)
      have "history (patchHistory sid p ?st1) = spread ?m p # ?rest"
        using Some 0 by (simp add: patchHistory_found [OF Some] saveHistory_history h1)
      then show ?thesis by (simp add: spread_twice)
    next
      case (Suc n)
      have "history (patchHistory sid p ?st1) ! 1 = ?m"
        using Suc by (simp add: patchHistory_found [OF Some] saveHistory_history h1)
      then show ?thesis by simp
    qed
  qed
qed

lemma choosePatch_dom:
  "fmdom (fmap_of_list
       [(''updatedAt'', JStr now),
        (''selectedReferenceDrug'', a),
        (''selectionJsonPath'', b),
        (''selectionRows'', c),
        (''runId'', d)]) = {|''updatedAt'', ''selectedReferenceDrug'', ''selectionJsonPath'', ''selectionRows'', ''runId''|}"
  by (simp add: fmdom_of_list)

lemma pipelinePatch_dom:
  "fmdom (pipelinePatch now result) =
     {|''updatedAt'', ''selectedReferenceDrug'', ''selectionJsonPath'', ''routerOutputPath'',
       ''analysisPreview'', ''analysisText'', ''selectionRows'', ''runId''|}"
  by (simp add: pipelinePatch_def Let_def fmdom_of_list)

lemma choose_twice:
  "updateHistoryFromChoose t2 result (updateHistoryFromChoose t1 result st) = updateHistoryFromChoose t2 result st"
  unfolding updateHistoryFromChoose_def
  by (rule patchHistory_later_wins) (simp_all add: choosePatch_dom)

lemma pipeline_twice:
  "updateHistoryFromPipeline t2 result (updateHistoryFromPipeline t1 result st) = updateHistoryFromPipeline t2 result st"
  unfolding updateHistoryFromPipeline_def
  by (rule patchHistory_later_wins) (simp_all add: pipelinePatch_dom)

lemma recRun_fields:
  "get recRun ''id'' = JStr ''r1''" "get recRun ''sessionId'' = JStr ''s1''"
  "get recRun ''runId'' = JStr ''r1''" "get recRun ''updatedAt'' = JStr ''t2''"
  by (simp_all add: recRun_def get_def)

lemma choosePatch_fields:
  "fmdom choosePatch = {|''updatedAt'', ''selectedReferenceDrug''|}"
  by (simp add: choosePatch_def fmdom_of_list)

lemma viewingB_fields:
  "history viewingB = [recB, recRun]" "activeHistoryId viewingB = JStr ''b''"
  "storageWritable viewingB"
  by (simp_all add: viewingB_def initialState_def)

lemma doneRun_fields:
  "jprop doneRun ''id'' = JStr ''r1''" "jprop doneRun ''session_id'' = JStr ''s1''"
  "jprop doneRun ''status'' = JStr ''done''" "truthy doneRun"
  by (simp_all add: doneRun_def get_def)

lemma updateHistoryFromPipeline_key:
  "jprop (jor (jprop (buildPipelineResultFromRun run) ''selection'') (JObj fmempty)) ''session_id''
     = jprop run ''session_id''"
  by (simp add: buildPipelineResultFromRun_def Let_def get_def jor_def)

lemma twoRecords_writable: "storageWritable twoRecords"
  by (simp add: twoRecords_def initialState_def)

lemma twoRecords_find:
  "findIndex (\<lambda>h. get h ''sessionId'' = JStr ''s2'') (history twoRecords) = Some 1"
  "findIndex (\<lambda>h. get h ''sessionId'' = JStr ''s1'') (history twoRecords) = Some 0"
  "findIndex (\<lambda>h. get h ''runId'' = JStr ''r2'') (history twoRecords) = Some 1"
  by (simp_all add: twoRecords_history recA_fields recB_fields)

lemma clearPendingForRun_history: "history (clearPendingForRun runId run st) = history st"
  by (simp add: clearPendingForRun_def Let_def)

lemma ensureHistoryFromRun_history:
  "history (ensureHistoryFromRun newId t1 t2 run st) =
     (if list_ex (\<lambda>h. get h ''runId'' = jprop run ''id'') (history st) then history st
      else runRecord newId t1 t2 run # history st)"
  by (simp add: ensureHistoryFromRun_def saveHistory_history)

lemma patchHistory_active:
  assumes "findIndex (\<lambda>h. get h ''sessionId'' = sid) (history st) = Some i"
  shows "activeHistoryId (patchHistory sid p st) = get (spread (history st ! i) p) ''id''"
  by (simp add: patchHistory_found [OF assms] saveHistory_active)

lemma patchHistoryByRunId_active:
  "activeHistoryId (patchHistoryByRunId rid p st) = activeHistoryId st"
  by (simp add: patchHistoryByRunId_def saveHistory_active split: option.splits)

lemma doneData_run: "jprop doneData ''run'' = doneRun"
  by (simp add: doneData_def get_def)

lemma doneData_done: "pollDone (Ok doneData)"
  by (simp add: pollDone_def doneData_run doneRun_fields)

section \<open>Projections and key values\<close>

lemma mapRunToHistory_keys:
  "get (mapRunToHistory now r) ''runId'' = jprop r ''id''"
  "get (mapRunToHistory now r) ''sessionId'' = jor (jprop r ''session_id'') JNull"
  by (simp_all add: mapRunToHistory_def Let_def get_def)

lemma projection_keys:
  assumes "\<And>i r. get (F i r) k = g r"
  shows "map (\<lambda>h. get h k) (map (\<lambda>(i, r). F i r) (enumerate n rs)) = map g rs"
  using assms by (induction rs arbitrary: n) simp_all

lemma truthy_not_nullish: "truthy v \<Longrightarrow> \<not> nullish v"
  by (cases v) (simp_all add: nullish_def)

lemma jor_null_nullish: "nullish (jor v JNull) \<longleftrightarrow> \<not> truthy v"
  by (cases v) (simp_all add: nullish_def jor_def)

lemma session_values:
  "filter (\<lambda>v. \<not> nullish v) (map (\<lambda>r. jor (jprop r ''session_id'') JNull) rs)
     = filter truthy (map (\<lambda>r. jprop r ''session_id'') rs)"
  by (induction rs) (auto simp: jor_null_nullish, simp_all add: jor_def)

lemma session_values_truthy:
  "filter truthy (map (\<lambda>r. jor (jprop r ''session_id'') JNull) rs)
     = filter truthy (map (\<lambda>r. jprop r ''session_id'') rs)"
  by (induction rs) (auto simp: jor_def)



lemma keyValues_Cons:
  "keyValues k (h # hs) = (if nullish (get h k) then keyValues k hs else get h k # keyValues k hs)"
  by (simp add: keyValues_def)

lemma keyValues_append: "keyValues k (xs @ ys) = keyValues k xs @ keyValues k ys"
  by (simp add: keyValues_def)

lemma keyValues_subset: "set (keyValues k hs) \<subseteq> (\<lambda>h. get h k) ` set hs"
  by (auto simp: keyValues_def)

lemma keyValues_filter_distinct:
  "distinct (keyValues k hs) \<Longrightarrow> distinct (keyValues k (filter Q hs))"
  by (induction hs) (auto simp: keyValues_def)

lemma keyValues_filter_member:
  "v \<in> set (keyValues k (filter Q hs)) \<Longrightarrow> \<exists>h \<in> set hs. Q h \<and> get h k = v \<and> \<not> nullish v"
  by (auto simp: keyValues_def)

lemma distinct_filter_update:
  "distinct (filter P xs) \<Longrightarrow> v \<notin> set (filter P xs) \<Longrightarrow> distinct (filter P (xs[i := v]))"
proof (induction xs arbitrary: i)
  case Nil
  then show ?case by simp
next
  case (Cons x xs)
  show ?case
  proof (cases i)
    case 0
    with Cons.prems show ?thesis by (auto split: if_splits)
  next
    case (Suc n)
    have sub: "set (xs[n := v]) \<subseteq> insert v (set xs)" by (rule set_update_subset_insert)
    from Cons.prems have d: "distinct (filter P xs)" and v: "v \<notin> set (filter P xs)"
      by (auto split: if_splits)
    have ih: "distinct (filter P (xs[n := v]))" using Cons.IH [OF d v] .
    show ?thesis
    proof (cases "P x")
      case True
      with Cons.prems have "x \<notin> set (filter P xs)" and "x \<noteq> v" by auto
      with sub have "x \<notin> set (filter P (xs[n := v]))" by auto
      with ih True Suc show ?thesis by simp
    next
      case False
      with ih Suc show ?thesis by simp
    qed
  qed
qed

lemma keyValues_update:
  "keyValues k (hs[i := r]) = filter (\<lambda>v. \<not> nullish v) ((map (\<lambda>h. get h k) hs)[i := get r k])"
  by (simp add: keyValues_def map_update)

lemma uniqueKey_update:
  assumes "uniqueKey k hs"
    and "get r k = get (hs ! i) k \<or> get r k \<notin> set (keyValues k hs)"
  shows "uniqueKey k (hs[i := r])"
proof (cases "get r k = get (hs ! i) k \<and> i < length hs")
  case True
  then have "(map (\<lambda>h. get h k) hs)[i := get r k] = map (\<lambda>h. get h k) hs"
    by (simp add: list_update_same_conv)
  with assms(1) show ?thesis by (simp add: uniqueKey_def keyValues_update) (simp add: keyValues_def)
next
  case False
  show ?thesis
  proof (cases "i < length hs")
    case True
    with False assms(2) have "get r k \<notin> set (keyValues k hs)" by simp
    with assms(1) show ?thesis
      unfolding uniqueKey_def keyValues_update
      by (intro distinct_filter_update) (simp_all add: keyValues_def)
  next
    case False
    then have "length hs \<le> i" by simp
    then have "hs[i := r] = hs" by (rule list_update_beyond)
    with assms(1) show ?thesis by simp
  qed
qed

lemma uniqueKey_promote:
  assumes "i < length hs"
  shows "uniqueKey k (r # (take i hs @ drop (Suc i) hs)) = uniqueKey k (hs[i := r])"
proof -
  have "hs[i := r] = take i hs @ r # drop (Suc i) hs"
    using assms by (rule upd_conv_take_nth_drop)
  then show ?thesis
    by (auto simp: uniqueKey_def keyValues_append keyValues_Cons)
qed

lemma patchKeepsKey_spread:
  "patchKeepsKey k p r hs \<Longrightarrow>
     get (spread r p) k = get r k \<or> get (spread r p) k \<notin> set (keyValues k hs)"
  by (auto simp: patchKeepsKey_def get_spread split: if_splits)

lemma patchHistory_unique:
  assumes "findIndex (\<lambda>h. get h ''sessionId'' = sid) (history st) = Some i"
    and "uniqueKey k (history st)"
    and "patchKeepsKey k p (history st ! i) (history st)"
  shows "uniqueKey k (history (patchHistory sid p st))"
proof -
  have i: "i < length (history st)" using assms(1) by (rule findIndex_Some_bound)
  have "uniqueKey k ((history st)[i := spread (history st ! i) p])"
    using assms(2) patchKeepsKey_spread [OF assms(3)] by (rule uniqueKey_update)
  then show ?thesis
    by (simp add: patchHistory_found [OF assms(1)] saveHistory_history uniqueKey_promote [OF i])
qed

lemma patchHistoryByRunId_unique:
  assumes "findIndex (\<lambda>h. get h ''runId'' = rid) (history st) = Some i"
    and "uniqueKey k (history st)"
    and "patchKeepsKey k p (history st ! i) (history st)"
  shows "uniqueKey k (history (patchHistoryByRunId rid p st))"
proof -
  have "uniqueKey k ((history st)[i := spread (history st ! i) p])"
    using assms(2) patchKeepsKey_spread [OF assms(3)] by (rule uniqueKey_update)
  then show ?thesis
    by (simp add: patchHistoryByRunId_found [OF assms(1)] saveHistory_history)
qed

lemma uniqueKey_Cons:
  "uniqueKey k (h # hs) \<longleftrightarrow> uniqueKey k hs \<and> (nullish (get h k) \<or> get h k \<notin> set (keyValues k hs))"
  by (auto simp: uniqueKey_def keyValues_Cons)

lemma runRecord_keys:
  "get (runRecord newId t1 t2 run) ''runId'' = jprop run ''id''"
  "get (runRecord newId t1 t2 run) ''sessionId'' = jor (jprop run ''session_id'') JNull"
  by (simp_all add: runRecord_def get_def)

lemma searchRecord_keys:
  "get (searchRecord newId t1 t2 result) ''runId'' = JNull"
  "get (searchRecord newId t1 t2 result) ''sessionId'' = jprop result ''session_id''"
  by (simp_all add: searchRecord_def get_def)

lemma ensure_unique_runId:
  assumes "uniqueKey ''runId'' (history st)"
  shows "uniqueKey ''runId'' (history (ensureHistoryFromRun newId t1 t2 run st))"
proof (cases "list_ex (\<lambda>h. get h ''runId'' = jprop run ''id'') (history st)")
  case True
  with assms show ?thesis by (simp add: ensureHistoryFromRun_history)
next
  case False
  then have "jprop run ''id'' \<notin> (\<lambda>h. get h ''runId'') ` set (history st)"
    by (auto simp: list_ex_iff)
  with keyValues_subset [of "''runId''" "history st"]
  have "jprop run ''id'' \<notin> set (keyValues ''runId'' (history st))" by auto
  with assms False show ?thesis
    by (simp add: ensureHistoryFromRun_history uniqueKey_Cons runRecord_keys)
qed

lemma ensure_unique_sessionId:
  assumes "uniqueKey ''sessionId'' (history st)"
    and "jor (jprop run ''session_id'') JNull \<notin> set (keyValues ''sessionId'' (history st))"
  shows "uniqueKey ''sessionId'' (history (ensureHistoryFromRun newId t1 t2 run st))"
  using assms by (simp add: ensureHistoryFromRun_history uniqueKey_Cons runRecord_keys)

lemma handleSearchResult_history:
  "history (handleSearchResult newId t1 t2 result st) =
     (if truthy (jprop result ''matches_count'') then searchRecord newId t1 t2 result # history st
      else history st)"
  by (simp add: handleSearchResult_def saveHistory_history)

lemma search_unique:
  assumes "dedupInvariant (history st)"
    and "jprop result ''session_id'' \<notin> set (keyValues ''sessionId'' (history st))"
  shows "dedupInvariant (history (handleSearchResult newId t1 t2 result st))"
  using assms
  by (simp add: handleSearchResult_history dedupInvariant_def uniqueKey_Cons searchRecord_keys nullish_def)

lemma filter_all: "(\<And>x. x \<in> set xs \<Longrightarrow> P x) \<Longrightarrow> filter P xs = xs"
  by (induction xs) auto

lemma reconcile_unique:
  assumes "serverRunsDistinct runs" and "dedupInvariant local"
  shows "dedupInvariant (reconcile clock runs local)"
proof -
  let ?proj = "map (\<lambda>(i, r). mapRunToHistory (clock i) r) (enumerate 0 runs)"
  let ?ids = "set (map (\<lambda>h. get h ''runId'') ?proj)"
  let ?sess = "set (filter truthy (map (\<lambda>h. get h ''sessionId'') ?proj))"
  let ?keep = "\<lambda>h. if truthy (get h ''runId'') \<and> get h ''runId'' \<in> ?ids then False
                   else if truthy (get h ''sessionId'') \<and> get h ''sessionId'' \<in> ?sess then False
                   else True"
  have rec: "reconcile clock runs local = ?proj @ filter ?keep local"
    unfolding reconcile_def Let_def ..
  have run_ids: "map (\<lambda>h. get h ''runId'') ?proj = map (\<lambda>r. jprop r ''id'') runs"
    by (rule projection_keys) (simp add: mapRunToHistory_keys)
  have sess: "map (\<lambda>h. get h ''sessionId'') ?proj = map (\<lambda>r. jor (jprop r ''session_id'') JNull) runs"
    by (rule projection_keys) (simp add: mapRunToHistory_keys)
  from assms(1) have ids_truthy: "\<And>r. r \<in> set runs \<Longrightarrow> truthy (jprop r ''id'')"
    and d1: "distinct (map (\<lambda>r. jprop r ''id'') runs)"
    and d2: "distinct (filter truthy (map (\<lambda>r. jprop r ''session_id'') runs))"
    by (simp_all add: serverRunsDistinct_def list_all_iff)
  have kv_run: "keyValues ''runId'' ?proj = map (\<lambda>r. jprop r ''id'') runs"
    unfolding keyValues_def run_ids
    by (rule filter_all) (auto dest: ids_truthy truthy_not_nullish)
  have kv_sess: "keyValues ''sessionId'' ?proj = filter truthy (map (\<lambda>r. jprop r ''session_id'') runs)"
    unfolding keyValues_def sess session_values ..
  have sess_set: "?sess = set (keyValues ''sessionId'' ?proj)"
    unfolding kv_sess sess session_values_truthy ..
  from assms(2) have l1: "distinct (keyValues ''runId'' local)"
    and l2: "distinct (keyValues ''sessionId'' local)"
    by (simp_all add: dedupInvariant_def uniqueKey_def)
  have u1: "uniqueKey ''runId'' (?proj @ filter ?keep local)"
  proof -
    have "set (keyValues ''runId'' ?proj) \<inter> set (keyValues ''runId'' (filter ?keep local)) = {}"
    proof (rule ccontr)
      assume "\<not> ?thesis"
      then obtain v where a: "v \<in> set (keyValues ''runId'' ?proj)"
        and b: "v \<in> set (keyValues ''runId'' (filter ?keep local))" by auto
      from a have "v \<in> ?ids" using keyValues_subset [of "''runId''" ?proj] by auto
      moreover from a have "truthy v" unfolding kv_run using ids_truthy by auto
      moreover from keyValues_filter_member [OF b]
      obtain h where "?keep h" and "get h ''runId'' = v" by blast
      ultimately show False by (auto split: if_splits)
    qed
    with d1 keyValues_filter_distinct [OF l1, of ?keep] show ?thesis
      by (simp add: uniqueKey_def keyValues_append kv_run)
  qed
  have u2: "uniqueKey ''sessionId'' (?proj @ filter ?keep local)"
  proof -
    have "set (keyValues ''sessionId'' ?proj) \<inter> set (keyValues ''sessionId'' (filter ?keep local)) = {}"
    proof (rule ccontr)
      assume "\<not> ?thesis"
      then obtain v where a: "v \<in> set (keyValues ''sessionId'' ?proj)"
        and b: "v \<in> set (keyValues ''sessionId'' (filter ?keep local))" by auto
      from a have "v \<in> ?sess" unfolding sess_set .
      moreover from a have "truthy v" unfolding kv_sess by simp
      moreover from keyValues_filter_member [OF b]
      obtain h where "?keep h" and "get h ''sessionId'' = v" by blast
      ultimately show False by (auto split: if_splits)
    qed
    with d2 keyValues_filter_distinct [OF l2, of ?keep] show ?thesis
      by (simp add: uniqueKey_def keyValues_append kv_sess)
  qed
  from u1 u2 show ?thesis unfolding rec dedupInvariant_def by simp
qed

lemma example_keys:
  "keyValues ''runId'' [recA, recB] = [JStr ''r2'']"
  "keyValues ''sessionId'' [recA, recB] = [JStr ''s1'', JStr ''s2'']"
  by (simp_all add: keyValues_def recA_fields recB_fields nullish_def)

lemma twoRecords_dedup: "dedupInvariant [recA, recB]"
  by (simp add: dedupInvariant_def uniqueKey_def example_keys)

lemma newRun_fields:
  "jprop newRun ''id'' = JStr ''r3''" "jprop newRun ''session_id'' = JStr ''s3''"
  by (simp_all add: newRun_def get_def)

lemma secondRun_fields:
  "jprop secondRun ''id'' = JStr ''r4''" "jprop secondRun ''session_id'' = JStr ''s1''"
  by (simp_all add: secondRun_def get_def)

lemma searchResult_fields:
  "jprop searchResult ''session_id'' = JStr ''s4''" "truthy (jprop searchResult ''matches_count'')"
  by (simp_all add: searchResult_def get_def)

lemma runPatch_fields:
  "fmdom runPatch = {|''selectedReferenceDrug'', ''runId''|}" "get runPatch ''runId'' = JStr ''r1''"
  by (simp_all add: runPatch_def fmdom_of_list get_def)

section \<open>Sequences of inserts\<close>

lemma handleSearchResult_writable:
  "storageWritable (handleSearchResult newId t1 t2 result st) = storageWritable st"
  by (simp add: handleSearchResult_def saveHistory_def)

lemma handleSearchResult_persisted:
  "truthy (jprop result ''matches_count'') \<Longrightarrow> storageWritable st \<Longrightarrow>
   persisted (handleSearchResult newId t1 t2 result st)
     = take 100 (history (handleSearchResult newId t1 t2 result st))"
  by (simp add: handleSearchResult_def saveHistory_def)

lemma searchInserts_snoc:
  "searchInserts (xs @ [(newId, t1, t2, result)]) st
     = handleSearchResult newId t1 t2 result (searchInserts xs st)"
proof (induction xs arbitrary: st)
  case Nil
  show ?case by simp
next
  case (Cons x xs)
  obtain a b c d where x: "x = (a, b, c, d)"
    by (cases x) auto
  show ?case
    unfolding x by (simp add: Cons.IH)
qed

lemma searchInserts_writable: "storageWritable (searchInserts xs st) = storageWritable st"
proof (induction xs arbitrary: st)
  case Nil
  show ?case by simp
next
  case (Cons x xs)
  obtain newId t1 t2 result where x: "x = (newId, t1, t2, result)"
    by (cases x) auto
  show ?case
    unfolding x searchInserts.simps Cons.IH by (rule handleSearchResult_writable)
qed

lemma searchInserts_history:
  "list_all (\<lambda>(newId, t1, t2, result). truthy (jprop result ''matches_count'')) xs \<Longrightarrow>
   history (searchInserts xs st)
     = rev (map (\<lambda>(newId, t1, t2, result). searchRecord newId t1 t2 result) xs) @ history st"
proof (induction xs arbitrary: st)
  case Nil
  then show ?case by simp
next
  case (Cons x xs)
  obtain newId t1 t2 result where x: "x = (newId, t1, t2, result)"
    by (cases x) auto
  from Cons.prems have t: "truthy (jprop result ''matches_count'')"
    and rest: "list_all (\<lambda>(newId, t1, t2, result). truthy (jprop result ''matches_count'')) xs"
    by (simp_all add: x)
  have "history (searchInserts (x # xs) st)
      = history (searchInserts xs (handleSearchResult newId t1 t2 result st))"
    by (simp add: x)
  also have "\<dots> = rev (map (\<lambda>(newId, t1, t2, result). searchRecord newId t1 t2 result) xs)
      @ history (handleSearchResult newId t1 t2 result st)"
    by (rule Cons.IH [OF rest])
  also have "\<dots> = rev (map (\<lambda>(newId, t1, t2, result). searchRecord newId t1 t2 result) (x # xs))
      @ history st"
    using t by (simp add: handleSearchResult_history x)
  finally show ?case .
qed

lemma searchInserts_persisted:
  assumes "list_all (\<lambda>(newId, t1, t2, result). truthy (jprop result ''matches_count'')) xs"
    and "xs \<noteq> []" and "storageWritable st"
  shows "persisted (searchInserts xs st) = take 100 (history (searchInserts xs st))"
proof -
  from assms(2) obtain ys y where xs: "xs = ys @ [y]"
    by (metis rev_exhaust)
  obtain newId t1 t2 result where y: "y = (newId, t1, t2, result)"
    by (cases y) auto
  from assms(1) have "truthy (jprop result ''matches_count'')"
    by (simp add: xs y)
  moreover have "storageWritable (searchInserts ys st)"
    using assms(3) by (simp add: searchInserts_writable)
  ultimately show ?thesis
    unfolding xs y searchInserts_snoc by (rule handleSearchResult_persisted)
qed

lemma numbered_searches:
  "list_all (\<lambda>(newId, t1, t2, result). truthy (jprop result ''matches_count''))
     (map (\<lambda>n. (digits n, ''t0'', ''t0'', searchResult)) [0..<k])"
  "length (map (\<lambda>n. (digits n, ''t0'', ''t0'', searchResult)) [0..<k]) = k"
  by (simp_all add: list_all_iff searchResult_fields)

lemma manySearches_facts:
  "list_all (\<lambda>(newId, t1, t2, result). truthy (jprop result ''matches_count'')) manySearches"
  "length manySearches = 101"
  unfolding manySearches_def by (rule numbered_searches)+

lemma manySearches_nonempty: "manySearches \<noteq> []"
  using manySearches_facts(2) by auto

lemma initialState_fields:
  "history initialState = []" "storageWritable initialState" "tasks initialState = []"
  "requests initialState = []"
  by (simp_all add: initialState_def)

section \<open>The poller, step by step\<close>

lemma saveHistory_others:
  "tasks (saveHistory st) = tasks st" "requests (saveHistory st) = requests st"
  "pendingRunId (saveHistory st) = pendingRunId st"
  "pendingMessage (saveHistory st) = pendingMessage st"
  "timeline (saveHistory st) = timeline st"
  "runningRunIds (saveHistory st) = runningRunIds st"
  "runningBySession (saveHistory st) = runningBySession st"
  by (simp_all add: saveHistory_def)

lemma patchHistory_others:
  "tasks (patchHistory sid p st) = tasks st" "requests (patchHistory sid p st) = requests st"
  "pendingRunId (patchHistory sid p st) = pendingRunId st"
  "pendingMessage (patchHistory sid p st) = pendingMessage st"
  "timeline (patchHistory sid p st) = timeline st"
  "runningRunIds (patchHistory sid p st) = runningRunIds st"
  "runningBySession (patchHistory sid p st) = runningBySession st"
  by (simp_all add: patchHistory_def Let_def saveHistory_others split: option.splits)

lemma ensureHistoryFromRun_others:
  "tasks (ensureHistoryFromRun newId t1 t2 run st) = tasks st"
  "requests (ensureHistoryFromRun newId t1 t2 run st) = requests st"
  "pendingRunId (ensureHistoryFromRun newId t1 t2 run st) = pendingRunId st"
  "pendingMessage (ensureHistoryFromRun newId t1 t2 run st) = pendingMessage st"
  "timeline (ensureHistoryFromRun newId t1 t2 run st) = timeline st"
  "runningRunIds (ensureHistoryFromRun newId t1 t2 run st) = runningRunIds st"
  "runningBySession (ensureHistoryFromRun newId t1 t2 run st) = runningBySession st"
  by (simp_all add: ensureHistoryFromRun_def saveHistory_others)

lemma clearPendingForRun_fields:
  "tasks (clearPendingForRun runId run st) = tasks st"
  "requests (clearPendingForRun runId run st) = requests st"
  "pendingRunId (clearPendingForRun runId run st) = JNull"
  "pendingMessage (clearPendingForRun runId run st) = None"
  "runningRunIds (clearPendingForRun runId run st) = runningRunIds st - {runId}"
  by (simp_all add: clearPendingForRun_def Let_def)

lemma clearPendingForRun_session:
  "truthy (jprop run ''session_id'') \<Longrightarrow>
   runningBySession (clearPendingForRun runId run st) (jprop run ''session_id'') \<noteq> Some runId"
  by (auto simp: clearPendingForRun_def Let_def split: option.splits)

lemma remove1_last: "x \<notin> set xs \<Longrightarrow> remove1 x (xs @ [x]) = xs"
  by (simp add: remove1_append)

lemma done_branch_fields:
  "tasks (updateHistoryFromPipeline now result (ensureHistoryFromRun newId t1 t2 run
      (clearPendingForRun runId run st))) = tasks st"
  "requests (updateHistoryFromPipeline now result (ensureHistoryFromRun newId t1 t2 run
      (clearPendingForRun runId run st))) = requests st"
  "pendingRunId (updateHistoryFromPipeline now result (ensureHistoryFromRun newId t1 t2 run
      (clearPendingForRun runId run st))) = JNull"
  "pendingMessage (updateHistoryFromPipeline now result (ensureHistoryFromRun newId t1 t2 run
      (clearPendingForRun runId run st))) = None"
  "runningRunIds (updateHistoryFromPipeline now result (ensureHistoryFromRun newId t1 t2 run
      (clearPendingForRun runId run st))) = runningRunIds st - {runId}"
  "runningBySession (updateHistoryFromPipeline now result (ensureHistoryFromRun newId t1 t2 run
      (clearPendingForRun runId run st))) = runningBySession (clearPendingForRun runId run st)"
  by (simp_all add: updateHistoryFromPipeline_def patchHistory_others ensureHistoryFromRun_others
      clearPendingForRun_fields)

lemma patchHistory_history_cong:
  assumes "history s = history s'"
  shows "history (patchHistory sid p s) = history (patchHistory sid p s')"
proof (cases "findIndex (\<lambda>h. get h ''sessionId'' = sid) (history s)")
  case None
  with assms show ?thesis by (simp add: patchHistory_def)
next
  case (Some i)
  then have "findIndex (\<lambda>h. get h ''sessionId'' = sid) (history s') = Some i"
    using assms by simp
  from patchHistory_found [OF Some] patchHistory_found [OF this] assms
  show ?thesis by (simp add: saveHistory_history)
qed

lemma done_branch_history:
  "history (updateHistoryFromPipeline now (buildPipelineResultFromRun run)
      (ensureHistoryFromRun newId t1 t2 run (clearPendingForRun runId run st)))
   = history (patchHistory (jprop run ''session_id'') (pipelinePatch now (buildPipelineResultFromRun run))
       (ensureHistoryFromRun newId t1 t2 run st))"
  unfolding updateHistoryFromPipeline_def updateHistoryFromPipeline_key
  by (rule patchHistory_history_cong)
     (simp add: ensureHistoryFromRun_history clearPendingForRun_history)

lemma clearPendingForRun_active:
  "activeHistoryId (clearPendingForRun runId run st) = activeHistoryId st"
  by (simp add: clearPendingForRun_def Let_def)

lemma ensureHistoryFromRun_active:
  "activeHistoryId (ensureHistoryFromRun newId t1 t2 run st) = activeHistoryId st"
  by (simp add: ensureHistoryFromRun_def saveHistory_active)

lemma patchHistory_active_cong:
  assumes "history s = history s'" and "activeHistoryId s = activeHistoryId s'"
  shows "activeHistoryId (patchHistory sid p s) = activeHistoryId (patchHistory sid p s')"
proof (cases "findIndex (\<lambda>h. get h ''sessionId'' = sid) (history s)")
  case None
  with assms show ?thesis by (simp add: patchHistory_def)
next
  case (Some i)
  then have "findIndex (\<lambda>h. get h ''sessionId'' = sid) (history s') = Some i"
    using assms by simp
  from patchHistory_active [OF Some] patchHistory_active [OF this] assms
  show ?thesis by simp
qed

lemma done_branch_active:
  "activeHistoryId (updateHistoryFromPipeline now (buildPipelineResultFromRun run)
      (ensureHistoryFromRun newId t1 t2 run (clearPendingForRun runId run st)))
   = activeHistoryId (patchHistory (jprop run ''session_id'') (pipelinePatch now (buildPipelineResultFromRun run))
       (ensureHistoryFromRun newId t1 t2 run st))"
  unfolding updateHistoryFromPipeline_def updateHistoryFromPipeline_key
  by (rule patchHistory_active_cong)
     (simp_all add: ensureHistoryFromRun_history clearPendingForRun_history
        ensureHistoryFromRun_active clearPendingForRun_active)

lemma appendPipelineIfRelated_cong:
  assumes "history s = history s'" and "activeHistoryId s = activeHistoryId s'"
  shows "appendPipelineIfRelated run result s = appendPipelineIfRelated run result s'"
  by (simp add: appendPipelineIfRelated_def getActiveRecord_def assms)

lemma done_branch_shown:
  "appendPipelineIfRelated run result
     (updateHistoryFromPipeline now (buildPipelineResultFromRun run)
       (ensureHistoryFromRun newId t1 t2 run (clearPendingForRun runId run st)))
   = appendPipelineIfRelated run result
       (patchHistory (jprop run ''session_id'') (pipelinePatch now (buildPipelineResultFromRun run))
         (ensureHistoryFromRun newId t1 t2 run st))"
  by (rule appendPipelineIfRelated_cong) (rule done_branch_history, rule done_branch_active)

lemma done_branch_shown_tasks:
  "appendPipelineIfRelated run result
     (updateHistoryFromPipeline now (buildPipelineResultFromRun run)
       (ensureHistoryFromRun newId t1 t2 run (clearPendingForRun runId run (st\<lparr>tasks := ts\<rparr>))))
   = appendPipelineIfRelated run result
       (updateHistoryFromPipeline now (buildPipelineResultFromRun run)
         (ensureHistoryFromRun newId t1 t2 run (clearPendingForRun runId run st)))"
  "appendPipelineIfRelated run result
     (updateHistoryFromPipeline now (buildPipelineResultFromRun run)
       (ensureHistoryFromRun newId t1 t2 run (clearPendingForRun runId run (st\<lparr>requests := rq\<rparr>))))
   = appendPipelineIfRelated run result
       (updateHistoryFromPipeline now (buildPipelineResultFromRun run)
         (ensureHistoryFromRun newId t1 t2 run (clearPendingForRun runId run st)))"
  unfolding done_branch_shown
  by (rule appendPipelineIfRelated_cong;
      rule patchHistory_history_cong patchHistory_active_cong;
      simp add: ensureHistoryFromRun_history ensureHistoryFromRun_active)+

lemma pollDone_data: "pollDone (Ok data) \<Longrightarrow> \<not> nullish data"
  by (cases data) (simp_all add: pollDone_def nullish_def)

lemma pollRunTry_done:
  assumes "pollDone (Ok data)"
  shows "pollRunTry runId (Ok data) newId t1 t2 now st =
    (appendPipelineIfRelated (jprop data ''run'') (buildPipelineResultFromRun (jprop data ''run''))
       (updateHistoryFromPipeline now (buildPipelineResultFromRun (jprop data ''run''))
         (ensureHistoryFromRun newId t1 t2 (jprop data ''run'')
           (clearPendingForRun runId (jprop data ''run'') st))),
     updateHistoryFromPipeline now (buildPipelineResultFromRun (jprop data ''run''))
       (ensureHistoryFromRun newId t1 t2 (jprop data ''run'')
         (clearPendingForRun runId (jprop data ''run'') st)))"
  using assms pollDone_data [OF assms] by (simp add: pollRunTry_def pollDone_def Let_def)

lemma pollRunSettled_done:
  assumes "pollDone (Ok data)"
    and "appendPipelineIfRelated (jprop data ''run'') (buildPipelineResultFromRun (jprop data ''run''))
       (updateHistoryFromPipeline now (buildPipelineResultFromRun (jprop data ''run''))
         (ensureHistoryFromRun newId t1 t2 (jprop data ''run'')
           (clearPendingForRun runId (jprop data ''run'') st))) = Inr ()"
  shows "pollRunSettled runId (Ok data) newId t1 t2 now st =
    updateHistoryFromPipeline now (buildPipelineResultFromRun (jprop data ''run''))
      (ensureHistoryFromRun newId t1 t2 (jprop data ''run'')
        (clearPendingForRun runId (jprop data ''run'')
          (st\<lparr>tasks := remove1 (Fetching runId) (tasks st)\<rparr>)))"
  by (simp add: pollRunSettled_def pollRunTry_done [OF assms(1)] done_branch_shown_tasks assms(2))

lemma pollRunSettled_done_thrown:
  assumes "pollDone (Ok data)"
    and "appendPipelineIfRelated (jprop data ''run'') (buildPipelineResultFromRun (jprop data ''run''))
       (updateHistoryFromPipeline now (buildPipelineResultFromRun (jprop data ''run''))
         (ensureHistoryFromRun newId t1 t2 (jprop data ''run'')
           (clearPendingForRun runId (jprop data ''run'') st))) = Inl e"
  shows "pollRunSettled runId (Ok data) newId t1 t2 now st =
    (updateHistoryFromPipeline now (buildPipelineResultFromRun (jprop data ''run''))
      (ensureHistoryFromRun newId t1 t2 (jprop data ''run'')
        (clearPendingForRun runId (jprop data ''run'')
          (st\<lparr>tasks := remove1 (Fetching runId) (tasks st)\<rparr>))))
     \<lparr>tasks := remove1 (Fetching runId) (tasks st) @ [Sleeping RUN_POLL_MS runId]\<rparr>"
  by (simp add: pollRunSettled_def pollRunTry_done [OF assms(1)] done_branch_shown_tasks assms(2)
      done_branch_fields)

lemma pollStopped_done:
  assumes "pollDone (Ok data)"
  shows "pollStopped runId (Ok data) newId t1 t2 now st \<longleftrightarrow>
    appendPipelineIfRelated (jprop data ''run'') (buildPipelineResultFromRun (jprop data ''run''))
       (updateHistoryFromPipeline now (buildPipelineResultFromRun (jprop data ''run''))
         (ensureHistoryFromRun newId t1 t2 (jprop data ''run'')
           (clearPendingForRun runId (jprop data ''run'') st))) = Inr ()"
  by (simp add: pollStopped_def pollRunTry_done [OF assms] done_branch_shown_tasks assms)

lemma pollStopped_pending: "\<not> pollDone resp \<Longrightarrow> \<not> pollStopped runId resp newId t1 t2 now st"
  by (simp add: pollStopped_def)

lemma pollRunSettled_retry:
  assumes "\<not> pollDone resp"
  shows "pollRunSettled runId resp newId t1 t2 now st =
    st\<lparr>tasks := remove1 (Fetching runId) (tasks st) @ [Sleeping RUN_POLL_MS runId]\<rparr>"
proof (cases resp)
  case Failed
  then show ?thesis by (simp add: pollRunSettled_def pollRunTry_def)
next
  case (Ok data)
  with assms have "\<not> truthy (jprop data ''run'') \<or> jprop (jprop data ''run'') ''status'' \<noteq> JStr ''done''"
    by (simp add: pollDone_def)
  with Ok show ?thesis by (simp add: pollRunSettled_def pollRunTry_def Let_def)
qed

lemma pollRunSettled_done_active:
  assumes "pollDone (Ok data)"
  shows "activeHistoryId (pollRunSettled runId (Ok data) newId t1 t2 now st) =
    activeHistoryId (updateHistoryFromPipeline now (buildPipelineResultFromRun (jprop data ''run''))
      (ensureHistoryFromRun newId t1 t2 (jprop data ''run'')
        (clearPendingForRun runId (jprop data ''run'')
          (st\<lparr>tasks := remove1 (Fetching runId) (tasks st)\<rparr>))))"
  by (simp add: pollRunSettled_def pollRunTry_done [OF assms] split: sum.splits)

lemma retry_round:
  assumes "Fetching runId \<notin> set (tasks st)" and "Sleeping RUN_POLL_MS runId \<notin> set (tasks st)"
    and "\<not> pollDone resp"
  shows "timerFires runId (pollRunSettled runId resp newId t1 t2 now (pollRun runId st))
     = pollRun runId (st\<lparr>requests := requests st @ [runId]\<rparr>)"
proof -
  have "pollRunSettled runId resp newId t1 t2 now (pollRun runId st)
      = (pollRun runId st)\<lparr>tasks := tasks st @ [Sleeping RUN_POLL_MS runId]\<rparr>"
    using assms(1) by (simp add: pollRunSettled_retry [OF assms(3)] pollRun_def remove1_last)
  then show ?thesis
    using assms(2) by (cases st) (simp add: timerFires_def pollRun_def remove1_last)
qed

lemma awaitPoll_retries:
  assumes "Fetching runId \<notin> set (tasks st)" and "Sleeping RUN_POLL_MS runId \<notin> set (tasks st)"
    and "list_all (\<lambda>r. \<not> pollDone r) rs"
  shows "awaitPoll runId (rs @ rest) newId t1 t2 now (pollRun runId st)
     = awaitPoll runId rest newId t1 t2 now
         (pollRun runId (st\<lparr>requests := requests st @ replicate (length rs) runId\<rparr>))"
  using assms
proof (induction rs arbitrary: st)
  case Nil
  show ?case by simp
next
  case (Cons r rs)
  let ?st1 = "st\<lparr>requests := requests st @ [runId]\<rparr>"
  from Cons.prems have r: "\<not> pollDone r" and rs: "list_all (\<lambda>r. \<not> pollDone r) rs"
    by simp_all
  have t: "Fetching runId \<notin> set (tasks ?st1)" "Sleeping RUN_POLL_MS runId \<notin> set (tasks ?st1)"
    using Cons.prems by simp_all
  have "awaitPoll runId ((r # rs) @ rest) newId t1 t2 now (pollRun runId st)
      = awaitPoll runId (rs @ rest) newId t1 t2 now (pollRun runId ?st1)"
    by (simp add: Let_def pollStopped_pending [OF r] retry_round [OF Cons.prems(1) Cons.prems(2) r])
  also have "\<dots> = awaitPoll runId rest newId t1 t2 now
         (pollRun runId (?st1\<lparr>requests := requests ?st1 @ replicate (length rs) runId\<rparr>))"
    by (rule Cons.IH [OF t rs])
  also have "?st1\<lparr>requests := requests ?st1 @ replicate (length rs) runId\<rparr>
      = st\<lparr>requests := requests st @ replicate (length (r # rs)) runId\<rparr>"
    by simp
  finally show ?case .
qed

lemma done_branch_shown_pollRun:
  "appendPipelineIfRelated run result
     (updateHistoryFromPipeline now (buildPipelineResultFromRun run)
       (ensureHistoryFromRun newId t1 t2 run (clearPendingForRun runId run (pollRun rid st))))
   = appendPipelineIfRelated run result
       (updateHistoryFromPipeline now (buildPipelineResultFromRun run)
         (ensureHistoryFromRun newId t1 t2 run (clearPendingForRun runId run st)))"
  by (simp add: pollRun_def done_branch_shown_tasks)

lemma pollRun_settled_tasks:
  assumes "Fetching runId \<notin> set (tasks st)"
  shows "(pollRun runId st)\<lparr>tasks := remove1 (Fetching runId) (tasks (pollRun runId st))\<rparr>
      = st\<lparr>requests := requests st @ [runId]\<rparr>"
  using assms by (cases st) (simp add: pollRun_def remove1_last)

lemma pollRun_settles_done:
  assumes "Fetching runId \<notin> set (tasks st)" and "pollDone (Ok data)"
    and "appendPipelineIfRelated (jprop data ''run'') (buildPipelineResultFromRun (jprop data ''run''))
       (updateHistoryFromPipeline now (buildPipelineResultFromRun (jprop data ''run''))
         (ensureHistoryFromRun newId t1 t2 (jprop data ''run'')
           (clearPendingForRun runId (jprop data ''run'') st))) = Inr ()"
  shows "pollRunSettled runId (Ok data) newId t1 t2 now (pollRun runId st)
     = updateHistoryFromPipeline now (buildPipelineResultFromRun (jprop data ''run''))
         (ensureHistoryFromRun newId t1 t2 (jprop data ''run'')
           (clearPendingForRun runId (jprop data ''run'')
             (st\<lparr>requests := requests st @ [runId]\<rparr>)))"
proof -
  have "appendPipelineIfRelated (jprop data ''run'') (buildPipelineResultFromRun (jprop data ''run''))
       (updateHistoryFromPipeline now (buildPipelineResultFromRun (jprop data ''run''))
         (ensureHistoryFromRun newId t1 t2 (jprop data ''run'')
           (clearPendingForRun runId (jprop data ''run'') (pollRun runId st)))) = Inr ()"
    by (simp only: done_branch_shown_pollRun assms(3))
  from pollRunSettled_done [OF assms(2) this]
  show ?thesis by (simp only: pollRun_settled_tasks [OF assms(1)])
qed

lemma pollRun_settles_thrown:
  assumes "Fetching runId \<notin> set (tasks st)" and "Sleeping RUN_POLL_MS runId \<notin> set (tasks st)"
    and "pollDone (Ok data)"
    and "appendPipelineIfRelated (jprop data ''run'') (buildPipelineResultFromRun (jprop data ''run''))
       (updateHistoryFromPipeline now (buildPipelineResultFromRun (jprop data ''run''))
         (ensureHistoryFromRun newId t1 t2 (jprop data ''run'')
           (clearPendingForRun runId (jprop data ''run'') st))) = Inl e"
  shows "timerFires runId (pollRunSettled runId (Ok data) newId t1 t2 now (pollRun runId st))
     = pollRun runId
         (updateHistoryFromPipeline now (buildPipelineResultFromRun (jprop data ''run''))
           (ensureHistoryFromRun newId t1 t2 (jprop data ''run'')
             (clearPendingForRun runId (jprop data ''run'')
               (st\<lparr>requests := requests st @ [runId]\<rparr>))))"
proof -
  let ?d = "updateHistoryFromPipeline now (buildPipelineResultFromRun (jprop data ''run''))
         (ensureHistoryFromRun newId t1 t2 (jprop data ''run'')
           (clearPendingForRun runId (jprop data ''run'')
             (st\<lparr>requests := requests st @ [runId]\<rparr>)))"
  have "appendPipelineIfRelated (jprop data ''run'') (buildPipelineResultFromRun (jprop data ''run''))
       (updateHistoryFromPipeline now (buildPipelineResultFromRun (jprop data ''run''))
         (ensureHistoryFromRun newId t1 t2 (jprop data ''run'')
           (clearPendingForRun runId (jprop data ''run'') (pollRun runId st)))) = Inl e"
    by (simp only: done_branch_shown_pollRun assms(4))
  from pollRunSettled_done_thrown [OF assms(3) this]
  have "pollRunSettled runId (Ok data) newId t1 t2 now (pollRun runId st)
      = ?d\<lparr>tasks := tasks st @ [Sleeping RUN_POLL_MS runId]\<rparr>"
    using assms(1) by (simp only: pollRun_settled_tasks [OF assms(1)]) (simp add: pollRun_def remove1_last)
  moreover have "tasks ?d = tasks st" by (simp add: done_branch_fields)
  ultimately show ?thesis
    using assms(2) by (cases ?d) (simp add: timerFires_def pollRun_def remove1_last)
qed

lemma runPoller_done_after_retries:
  assumes "Fetching runId \<notin> set (tasks st)" and "Sleeping RUN_POLL_MS runId \<notin> set (tasks st)"
    and "list_all (\<lambda>r. \<not> pollDone r) rs" and "pollDone (Ok data)"
    and "appendPipelineIfRelated (jprop data ''run'') (buildPipelineResultFromRun (jprop data ''run''))
       (updateHistoryFromPipeline now (buildPipelineResultFromRun (jprop data ''run''))
         (ensureHistoryFromRun newId t1 t2 (jprop data ''run'')
           (clearPendingForRun runId (jprop data ''run'') st))) = Inr ()"
  shows "runPoller runId (rs @ [Ok data]) newId t1 t2 now st
     = updateHistoryFromPipeline now (buildPipelineResultFromRun (jprop data ''run''))
         (ensureHistoryFromRun newId t1 t2 (jprop data ''run'')
           (clearPendingForRun runId (jprop data ''run'')
             (st\<lparr>requests := requests st @ replicate (Suc (length rs)) runId\<rparr>)))"
proof -
  let ?st1 = "st\<lparr>requests := requests st @ replicate (length rs) runId\<rparr>"
  have t: "Fetching runId \<notin> set (tasks ?st1)" using assms(1) by simp
  have s: "appendPipelineIfRelated (jprop data ''run'') (buildPipelineResultFromRun (jprop data ''run''))
       (updateHistoryFromPipeline now (buildPipelineResultFromRun (jprop data ''run''))
         (ensureHistoryFromRun newId t1 t2 (jprop data ''run'')
           (clearPendingForRun runId (jprop data ''run'') ?st1))) = Inr ()"
    by (simp only: done_branch_shown_tasks assms(5))
  have p: "pollStopped runId (Ok data) newId t1 t2 now (pollRun runId ?st1)"
    by (simp only: pollStopped_done [OF assms(4)] done_branch_shown_pollRun s)
  have "runPoller runId (rs @ [Ok data]) newId t1 t2 now st
      = awaitPoll runId [Ok data] newId t1 t2 now (pollRun runId ?st1)"
    unfolding runPoller_def by (rule awaitPoll_retries [OF assms(1) assms(2) assms(3)])
  also have "\<dots> = pollRunSettled runId (Ok data) newId t1 t2 now (pollRun runId ?st1)"
    using p by (simp add: Let_def)
  also have "\<dots> = updateHistoryFromPipeline now (buildPipelineResultFromRun (jprop data ''run''))
         (ensureHistoryFromRun newId t1 t2 (jprop data ''run'')
           (clearPendingForRun runId (jprop data ''run'')
             (?st1\<lparr>requests := requests ?st1 @ [runId]\<rparr>)))"
    by (rule pollRun_settles_done [OF t assms(4) s])
  also have "?st1\<lparr>requests := requests ?st1 @ [runId]\<rparr>
      = st\<lparr>requests := requests st @ replicate (Suc (length rs)) runId\<rparr>"
    by (simp add: replicate_append_same)
  finally show ?thesis .
qed

lemma runPoller_rearmed_after_done:
  assumes "Fetching runId \<notin> set (tasks st)" and "Sleeping RUN_POLL_MS runId \<notin> set (tasks st)"
    and "list_all (\<lambda>r. \<not> pollDone r) rs" and "pollDone (Ok data)"
    and "appendPipelineIfRelated (jprop data ''run'') (buildPipelineResultFromRun (jprop data ''run''))
       (updateHistoryFromPipeline now (buildPipelineResultFromRun (jprop data ''run''))
         (ensureHistoryFromRun newId t1 t2 (jprop data ''run'')
           (clearPendingForRun runId (jprop data ''run'') st))) = Inl e"
  shows "runPoller runId (rs @ [Ok data]) newId t1 t2 now st
     = pollRun runId
         (updateHistoryFromPipeline now (buildPipelineResultFromRun (jprop data ''run''))
           (ensureHistoryFromRun newId t1 t2 (jprop data ''run'')
             (clearPendingForRun runId (jprop data ''run'')
               (st\<lparr>requests := requests st @ replicate (Suc (length rs)) runId\<rparr>))))"
proof -
  let ?st1 = "st\<lparr>requests := requests st @ replicate (length rs) runId\<rparr>"
  have t: "Fetching runId \<notin> set (tasks ?st1)" "Sleeping RUN_POLL_MS runId \<notin> set (tasks ?st1)"
    using assms(1,2) by simp_all
  have s: "appendPipelineIfRelated (jprop data ''run'') (buildPipelineResultFromRun (jprop data ''run''))
       (updateHistoryFromPipeline now (buildPipelineResultFromRun (jprop data ''run''))
         (ensureHistoryFromRun newId t1 t2 (jprop data ''run'')
           (clearPendingForRun runId (jprop data ''run'') ?st1))) = Inl e"
    by (simp only: done_branch_shown_tasks assms(5))
  have p: "\<not> pollStopped runId (Ok data) newId t1 t2 now (pollRun runId ?st1)"
    by (simp only: pollStopped_done [OF assms(4)] done_branch_shown_pollRun s) simp
  have "runPoller runId (rs @ [Ok data]) newId t1 t2 now st
      = awaitPoll runId [Ok data] newId t1 t2 now (pollRun runId ?st1)"
    unfolding runPoller_def by (rule awaitPoll_retries [OF assms(1) assms(2) assms(3)])
  also have "\<dots> = timerFires runId (pollRunSettled runId (Ok data) newId t1 t2 now (pollRun runId ?st1))"
    using p by (simp add: Let_def)
  also have "\<dots> = pollRun runId
         (updateHistoryFromPipeline now (buildPipelineResultFromRun (jprop data ''run''))
           (ensureHistoryFromRun newId t1 t2 (jprop data ''run'')
             (clearPendingForRun runId (jprop data ''run'')
               (?st1\<lparr>requests := requests ?st1 @ [runId]\<rparr>))))"
    by (rule pollRun_settles_thrown [OF t assms(4) s])
  also have "?st1\<lparr>requests := requests ?st1 @ [runId]\<rparr>
      = st\<lparr>requests := requests st @ replicate (Suc (length rs)) runId\<rparr>"
    by (simp add: replicate_append_same)
  finally show ?thesis .
qed

lemma runPoller_still_pending:
  assumes "Fetching runId \<notin> set (tasks st)" and "Sleeping RUN_POLL_MS runId \<notin> set (tasks st)"
    and "list_all (\<lambda>r. \<not> pollDone r) rs"
  shows "runPoller runId rs newId t1 t2 now st
     = pollRun runId (st\<lparr>requests := requests st @ replicate (length rs) runId\<rparr>)"
  using awaitPoll_retries [OF assms, of "[]" newId t1 t2 now]
  by (simp add: runPoller_def)

lemma runningData_pending: "\<not> pollDone (Ok runningData)"
  by (simp add: pollDone_def runningData_def runningRun_def get_def)

lemma viewingB_tasks: "tasks viewingB = []" "requests viewingB = []"
  by (simp_all add: viewingB_def initialState_def)

lemma doneRun_patch_text:
  "get (pipelinePatch now (buildPipelineResultFromRun doneRun)) ''analysisText'' = JStr ''final analysis''"
  by (simp add: pipelinePatch_def buildPipelineResultFromRun_def Let_def get_def jor_def doneRun_def)

lemma doneRunOneRow_fields:
  "jprop doneRunOneRow ''id'' = JStr ''r1''" "jprop doneRunOneRow ''session_id'' = JStr ''s1''"
  "jprop doneRunOneRow ''status'' = JStr ''done''" "truthy doneRunOneRow"
  by (simp_all add: doneRunOneRow_def get_def)

lemma doneDataOneRow_run: "jprop doneDataOneRow ''run'' = doneRunOneRow"
  by (simp add: doneDataOneRow_def get_def)

lemma doneDataOneRow_done: "pollDone (Ok doneDataOneRow)"
  by (simp add: pollDone_def doneDataOneRow_run doneRunOneRow_fields)

lemma doneRun_shown: "appendPipeline (buildPipelineResultFromRun doneRun) = Inr ()"
  by (simp add: appendPipeline_def buildPipelineResultFromRun_def Let_def get_def jor_def doneRun_def)

lemma doneRunOneRow_thrown: "appendPipeline (buildPipelineResultFromRun doneRunOneRow) = Inl TypeError"
  by (simp add: appendPipeline_def buildPipelineResultFromRun_def buildReferenceTable_def
      Let_def get_def jor_def doneRunOneRow_def)

lemma doneRunOneRow_patch_text:
  "get (pipelinePatch now (buildPipelineResultFromRun doneRunOneRow)) ''analysisText'' = JStr ''final analysis''"
  by (simp add: pipelinePatch_def buildPipelineResultFromRun_def Let_def get_def jor_def doneRunOneRow_def)

lemma pipelinePatch_runId:
  "get (pipelinePatch now (buildPipelineResultFromRun run)) ''runId'' = jor (jprop run ''id'') JNull"
  by (simp add: pipelinePatch_def buildPipelineResultFromRun_def Let_def get_def jor_def)

text \<open>
  The store of \<open>viewingB\<close> after the done branch for a run \<open>r1\<close> of session \<open>s1\<close>: the
  run's record is patched, at the front and active, and it is related to the run. The
  same holds when the done branch runs once more on the store it left.
\<close>

lemma viewingB_done_patched:
  assumes "history st = [recB, recRun]
      \<or> history st = [spread recRun (pipelinePatch now (buildPipelineResultFromRun run)), recB]"
    and "jprop run ''id'' = JStr ''r1''" and "jprop run ''session_id'' = JStr ''s1''"
  shows "history (patchHistory (JStr ''s1'') (pipelinePatch now (buildPipelineResultFromRun run))
            (ensureHistoryFromRun newId t1 t2 run st))
          = [spread recRun (pipelinePatch now (buildPipelineResultFromRun run)), recB]"
    and "activeHistoryId (patchHistory (JStr ''s1'') (pipelinePatch now (buildPipelineResultFromRun run))
            (ensureHistoryFromRun newId t1 t2 run st)) = JStr ''r1''"
proof -
  let ?p = "pipelinePatch now (buildPipelineResultFromRun run)"
  have r: "get (spread recRun ?p) ''runId'' = JStr ''r1''"
    "get (spread recRun ?p) ''sessionId'' = JStr ''s1''" "get (spread recRun ?p) ''id'' = JStr ''r1''"
    by (simp_all add: get_spread pipelinePatch_dom pipelinePatch_runId assms(2) jor_def recRun_fields)
  have e: "ensureHistoryFromRun newId t1 t2 run st = st"
    using assms(1) by (auto simp: ensureHistoryFromRun_def assms(2) recRun_fields recB_fields r)
  have "history (patchHistory (JStr ''s1'') ?p st) = [spread recRun ?p, recB]
      \<and> activeHistoryId (patchHistory (JStr ''s1'') ?p st) = JStr ''r1''"
    using assms(1)
  proof
    assume h: "history st = [recB, recRun]"
    have f: "findIndex (\<lambda>h. get h ''sessionId'' = JStr ''s1'') (history st) = Some (Suc 0)"
      by (simp add: h recB_fields recRun_fields)
    show ?thesis
      unfolding patchHistory_found [OF f]
      by (simp add: saveHistory_history saveHistory_active h r)
  next
    assume h: "history st = [spread recRun ?p, recB]"
    have f: "findIndex (\<lambda>h. get h ''sessionId'' = JStr ''s1'') (history st) = Some 0"
      by (simp add: h r)
    show ?thesis
      unfolding patchHistory_found [OF f]
      by (simp add: saveHistory_history saveHistory_active h r spread_twice)
  qed
  then show "history (patchHistory (JStr ''s1'') ?p (ensureHistoryFromRun newId t1 t2 run st))
          = [spread recRun ?p, recB]"
    and "activeHistoryId (patchHistory (JStr ''s1'') ?p (ensureHistoryFromRun newId t1 t2 run st))
          = JStr ''r1''"
    unfolding e by simp_all
qed

lemma viewingB_done_related:
  assumes "history st = [recB, recRun]
      \<or> history st = [spread recRun (pipelinePatch now (buildPipelineResultFromRun run)), recB]"
    and "jprop run ''id'' = JStr ''r1''" and "jprop run ''session_id'' = JStr ''s1''"
    and "truthy run"
  shows "appendPipelineIfRelated run result
           (updateHistoryFromPipeline now (buildPipelineResultFromRun run)
             (ensureHistoryFromRun newId t1 t2 run (clearPendingForRun runId run st)))
         = appendPipeline result"
  unfolding done_branch_shown assms(3)
  by (simp add: appendPipelineIfRelated_def getActiveRecord_def isRunRelatedToRecord_def
      viewingB_done_patched [OF assms(1) assms(2) assms(3)] get_spread pipelinePatch_dom
      pipelinePatch_runId assms(2) assms(4) jor_def recRun_fields recB_fields)

text \<open>
  A poller for \<open>r1\<close> on the store of \<open>viewingB\<close> whose every request is answered with
  the done run of the one row object: each answer is followed by a further request.
\<close>

lemma oneRow_rounds:
  assumes "history st = [recB, recRun]
      \<or> history st = [spread recRun (pipelinePatch now (buildPipelineResultFromRun doneRunOneRow)), recB]"
    and "Fetching (JStr ''r1'') \<notin> set (tasks st)"
    and "Sleeping RUN_POLL_MS (JStr ''r1'') \<notin> set (tasks st)"
  shows "requests (awaitPoll (JStr ''r1'') (replicate n (Ok doneDataOneRow)) newId t1 t2 now
            (pollRun (JStr ''r1'') st)) = requests st @ replicate (Suc n) (JStr ''r1'')
       \<and> tasks (awaitPoll (JStr ''r1'') (replicate n (Ok doneDataOneRow)) newId t1 t2 now
            (pollRun (JStr ''r1'') st)) = tasks st @ [Fetching (JStr ''r1'')]"
  using assms
proof (induction n arbitrary: st)
  case 0
  show ?case by (simp add: pollRun_def)
next
  case (Suc n)
  let ?r = "JStr ''r1''"
  let ?d = "updateHistoryFromPipeline now (buildPipelineResultFromRun (jprop doneDataOneRow ''run''))
         (ensureHistoryFromRun newId t1 t2 (jprop doneDataOneRow ''run'')
           (clearPendingForRun ?r (jprop doneDataOneRow ''run'')
             (st\<lparr>requests := requests st @ [?r]\<rparr>)))"
  have s: "appendPipelineIfRelated (jprop doneDataOneRow ''run'')
       (buildPipelineResultFromRun (jprop doneDataOneRow ''run''))
       (updateHistoryFromPipeline now (buildPipelineResultFromRun (jprop doneDataOneRow ''run''))
         (ensureHistoryFromRun newId t1 t2 (jprop doneDataOneRow ''run'')
           (clearPendingForRun ?r (jprop doneDataOneRow ''run'') st))) = Inl TypeError"
    unfolding doneDataOneRow_run
    by (simp add: viewingB_done_related [OF Suc.prems(1)] doneRunOneRow_fields doneRunOneRow_thrown)
  have p: "\<not> pollStopped ?r (Ok doneDataOneRow) newId t1 t2 now (pollRun ?r st)"
    by (simp only: pollStopped_done [OF doneDataOneRow_done] done_branch_shown_pollRun s) simp
  have "awaitPoll ?r (replicate (Suc n) (Ok doneDataOneRow)) newId t1 t2 now (pollRun ?r st)
      = awaitPoll ?r (replicate n (Ok doneDataOneRow)) newId t1 t2 now
          (timerFires ?r (pollRunSettled ?r (Ok doneDataOneRow) newId t1 t2 now (pollRun ?r st)))"
    using p by (simp add: Let_def)
  also have "\<dots> = awaitPoll ?r (replicate n (Ok doneDataOneRow)) newId t1 t2 now (pollRun ?r ?d)"
    by (simp only: pollRun_settles_thrown [OF Suc.prems(2) Suc.prems(3) doneDataOneRow_done s])
  finally have e: "awaitPoll ?r (replicate (Suc n) (Ok doneDataOneRow)) newId t1 t2 now (pollRun ?r st)
      = awaitPoll ?r (replicate n (Ok doneDataOneRow)) newId t1 t2 now (pollRun ?r ?d)" .
  have h0: "history (st\<lparr>requests := requests st @ [?r]\<rparr>) = [recB, recRun]
      \<or> history (st\<lparr>requests := requests st @ [?r]\<rparr>)
          = [spread recRun (pipelinePatch now (buildPipelineResultFromRun doneRunOneRow)), recB]"
    using Suc.prems(1) by simp
  have h: "history ?d = [spread recRun (pipelinePatch now (buildPipelineResultFromRun doneRunOneRow)), recB]"
    unfolding doneDataOneRow_run done_branch_history doneRunOneRow_fields
    by (rule viewingB_done_patched [OF h0]) (simp_all add: doneRunOneRow_fields)
  have t: "tasks ?d = tasks st" "requests ?d = requests st @ [?r]"
    by (simp_all add: done_branch_fields)
  from Suc.IH [of ?d] h t Suc.prems(2) Suc.prems(3)
  show ?case unfolding e by (simp add: replicate_append_same)
qed

section \<open>Showing the running state\<close>

lemma pendingKeyFor_cases:
  "pendingKeyFor r st =
     (if truthy (getRunningRunIdForRecord (Some r) st) then getRunningRunIdForRecord (Some r) st
      else JStr (''session:'' @ toStr (get r ''sessionId'')))"
  by (simp add: pendingKeyFor_def jor_def)

lemma maybeShow_same_key:
  "pendingRunId st = pendingKeyFor r st \<Longrightarrow> maybeShowRunningForRecord node (Some r) st = st"
  by (simp add: maybeShowRunningForRecord_def Let_def)

lemma maybeShow_nothing_running:
  "\<not> truthy (getRunningRunIdForRecord (Some r) st) \<Longrightarrow>
   \<not> (truthy (get r ''sessionId'') \<and> get r ''sessionId'' \<in> pendingSessions st) \<Longrightarrow>
   maybeShowRunningForRecord node (Some r) st = st"
  by (simp add: maybeShowRunningForRecord_def Let_def)

lemma maybeShow_new_key:
  assumes "truthy (getRunningRunIdForRecord (Some r) st)
      \<or> truthy (get r ''sessionId'') \<and> get r ''sessionId'' \<in> pendingSessions st"
    and "pendingRunId st \<noteq> pendingKeyFor r st"
  shows "maybeShowRunningForRecord node (Some r) st =
    (let runId = getRunningRunIdForRecord (Some r) st;
         st2 = st\<lparr>pendingRunId := pendingKeyFor r st, pendingMessage := Some node,
                 timeline := removeNode (pendingMessage st) (timeline st) @ [node]\<rparr>
     in if truthy runId then pollRun runId st2 else st2)"
  using assms by (cases st) (auto simp: maybeShowRunningForRecord_def Let_def)

lemma maybeShow_keeps_indicator:
  assumes "indicatorTracked st"
  shows "indicatorTracked (maybeShowRunningForRecord node rcd st)"
proof (cases rcd)
  case None
  with assms show ?thesis by (simp add: maybeShowRunningForRecord_def)
next
  case (Some r)
  show ?thesis
  proof (cases "(truthy (getRunningRunIdForRecord (Some r) st)
      \<or> truthy (get r ''sessionId'') \<and> get r ''sessionId'' \<in> pendingSessions st)
      \<and> pendingRunId st \<noteq> pendingKeyFor r st")
    case True
    then have s: "truthy (getRunningRunIdForRecord (Some r) st)
        \<or> truthy (get r ''sessionId'') \<and> get r ''sessionId'' \<in> pendingSessions st"
      and k: "pendingRunId st \<noteq> pendingKeyFor r st" by simp_all
    from assms have "removeNode (pendingMessage st) (timeline st) = []"
      by (simp add: indicatorTracked_def removeNode_def split: option.splits)
    then show ?thesis
      unfolding Some maybeShow_new_key [OF s k]
      by (simp add: indicatorTracked_def Let_def pollRun_def)
  next
    case False
    then have "maybeShowRunningForRecord node (Some r) st = st"
      using maybeShow_same_key [of st r node] maybeShow_nothing_running [of r st node] by blast
    with assms Some show ?thesis by simp
  qed
qed

lemma render_indicator:
  "indicatorTracked (renderHistoryConversation node r st)"
  unfolding renderHistoryConversation_def
  by (rule maybeShow_keeps_indicator) (simp add: indicatorTracked_def)

lemma indicatorTracked_length: "indicatorTracked st \<Longrightarrow> length (timeline st) \<le> 1"
  by (simp add: indicatorTracked_def split: option.splits)

lemma maybeShow_running:
  "runningRunIds (maybeShowRunningForRecord node rcd st) = runningRunIds st"
  "runningBySession (maybeShowRunningForRecord node rcd st) = runningBySession st"
  by (cases rcd; simp add: maybeShowRunningForRecord_def Let_def pollRun_def)+

lemma getRunning_cong:
  assumes "runningRunIds s = runningRunIds s'" and "runningBySession s = runningBySession s'"
  shows "getRunningRunIdForRecord rcd s = getRunningRunIdForRecord rcd s'"
  unfolding getRunningRunIdForRecord_def assms ..

lemma pendingKeyFor_after_show:
  "pendingKeyFor r (maybeShowRunningForRecord node rcd st) = pendingKeyFor r st"
  unfolding pendingKeyFor_def
  by (simp add: getRunning_cong [OF maybeShow_running])

lemma viewingB_running:
  "getRunningRunIdForRecord (Some recRun) viewingB = JStr ''r1''"
  "getRunningRunIdForRecord (Some recB) viewingB = JNull"
  "pendingRunId viewingB = JNull" "pendingMessage viewingB = None" "timeline viewingB = []"
  "pendingSessions viewingB = {}"
  by (simp_all add: getRunningRunIdForRecord_def viewingB_def initialState_def recRun_fields recB_fields)

lemma twoRunning_second_click:
  "onHistoryClick 12 ''b''
     (twoRunning\<lparr>activeHistoryId := JStr ''r1'', pendingRunId := JStr ''r1'', pendingMessage := Some 11,
        timeline := [11], tasks := [Fetching (JStr ''r1'')], requests := [JStr ''r1'']\<rparr>) =
     twoRunning\<lparr>activeHistoryId := JStr ''b'', pendingRunId := JStr ''r2'', pendingMessage := Some 12,
       timeline := [12], tasks := [Fetching (JStr ''r1''), Fetching (JStr ''r2'')],
       requests := [JStr ''r1'', JStr ''r2'']\<rparr>"
  by (simp add: onHistoryClick_def renderHistoryConversation_def maybeShowRunningForRecord_def
      getRunningRunIdForRecord_def pendingKeyFor_def jor_def pollRun_def removeNode_def
      twoRunning_def initialState_def recRun_fields recB_fields Let_def)

lemma twoRunning_first_click:
  "onHistoryClick 11 ''r1'' twoRunning =
     twoRunning\<lparr>activeHistoryId := JStr ''r1'', pendingRunId := JStr ''r1'', pendingMessage := Some 11,
       timeline := [11], tasks := [Fetching (JStr ''r1'')], requests := [JStr ''r1'']\<rparr>"
  by (simp add: onHistoryClick_def renderHistoryConversation_def maybeShowRunningForRecord_def
      getRunningRunIdForRecord_def pendingKeyFor_def jor_def pollRun_def removeNode_def
      twoRunning_def initialState_def recRun_fields recB_fields Let_def)


section \<open>Uniqueness of run ids and session ids\<close>

text \<open>
  C1, as the code has it. No operation removes duplicates; each keeps the keys unique
  when what comes in does not repeat a key. \<open>reconcile\<close> yields unique run ids and
  session ids when the server runs have ids of their own and sessions of their own and
  the local records were unique. \<open>ensureHistoryFromRun\<close> keeps run ids unique always,
  and session ids when the run's session is held by no record. \<open>handleSearchResult\<close>
  keeps both when the new session id is held by no record. The two patch functions keep
  both when the patch is harmless for the two keys (\<open>patchKeepsKey\<close>).
\<close>

theorem dedup_invariant_preserved:
  "(serverRunsDistinct runs \<and> dedupInvariant local \<longrightarrow>
      dedupInvariant (reconcile clock runs local))
   \<and> (uniqueKey ''runId'' (history st) \<longrightarrow>
      uniqueKey ''runId'' (history (ensureHistoryFromRun newId t1 t2 run st)))
   \<and> (uniqueKey ''sessionId'' (history st)
        \<and> jor (jprop run ''session_id'') JNull \<notin> set (keyValues ''sessionId'' (history st)) \<longrightarrow>
      uniqueKey ''sessionId'' (history (ensureHistoryFromRun newId t1 t2 run st)))
   \<and> (dedupInvariant (history st)
        \<and> jprop result ''session_id'' \<notin> set (keyValues ''sessionId'' (history st)) \<longrightarrow>
      dedupInvariant (history (handleSearchResult newId t1 t2 result st)))
   \<and> (findIndex (\<lambda>h. get h ''sessionId'' = sid) (history st) = Some i
        \<and> dedupInvariant (history st)
        \<and> patchKeepsKey ''runId'' p (history st ! i) (history st)
        \<and> patchKeepsKey ''sessionId'' p (history st ! i) (history st) \<longrightarrow>
      dedupInvariant (history (patchHistory sid p st)))
   \<and> (findIndex (\<lambda>h. get h ''runId'' = rid) (history st) = Some j
        \<and> dedupInvariant (history st)
        \<and> patchKeepsKey ''runId'' p (history st ! j) (history st)
        \<and> patchKeepsKey ''sessionId'' p (history st ! j) (history st) \<longrightarrow>
      dedupInvariant (history (patchHistoryByRunId rid p st)))"
proof (intro conjI impI)
  assume "serverRunsDistinct runs \<and> dedupInvariant local"
  then show "dedupInvariant (reconcile clock runs local)"
    by (simp add: reconcile_unique)
next
  assume "uniqueKey ''runId'' (history st)"
  then show "uniqueKey ''runId'' (history (ensureHistoryFromRun newId t1 t2 run st))"
    by (rule ensure_unique_runId)
next
  assume "uniqueKey ''sessionId'' (history st)
        \<and> jor (jprop run ''session_id'') JNull \<notin> set (keyValues ''sessionId'' (history st))"
  then show "uniqueKey ''sessionId'' (history (ensureHistoryFromRun newId t1 t2 run st))"
    by (simp add: ensure_unique_sessionId)
next
  assume "dedupInvariant (history st)
        \<and> jprop result ''session_id'' \<notin> set (keyValues ''sessionId'' (history st))"
  then show "dedupInvariant (history (handleSearchResult newId t1 t2 result st))"
    by (simp add: search_unique)
next
  assume a: "findIndex (\<lambda>h. get h ''sessionId'' = sid) (history st) = Some i
        \<and> dedupInvariant (history st)
        \<and> patchKeepsKey ''runId'' p (history st ! i) (history st)
        \<and> patchKeepsKey ''sessionId'' p (history st ! i) (history st)"
  then have f: "findIndex (\<lambda>h. get h ''sessionId'' = sid) (history st) = Some i" by simp
  from a show "dedupInvariant (history (patchHistory sid p st))"
    unfolding dedupInvariant_def by (simp add: patchHistory_unique [OF f])
next
  assume a: "findIndex (\<lambda>h. get h ''runId'' = rid) (history st) = Some j
        \<and> dedupInvariant (history st)
        \<and> patchKeepsKey ''runId'' p (history st ! j) (history st)
        \<and> patchKeepsKey ''sessionId'' p (history st ! j) (history st)"
  then have f: "findIndex (\<lambda>h. get h ''runId'' = rid) (history st) = Some j" by simp
  from a show "dedupInvariant (history (patchHistoryByRunId rid p st))"
    unfolding dedupInvariant_def by (simp add: patchHistoryByRunId_unique [OF f])
qed

theorem dedup_invariant_preserved_witness:
  "serverRunsDistinct [doneRun] \<and> dedupInvariant [recA, recB]
   \<and> dedupInvariant (reconcile (\<lambda>i. ''t5'') [doneRun] [recA, recB])
   \<and> uniqueKey ''runId'' (history twoRecords)
   \<and> uniqueKey ''runId'' (history (ensureHistoryFromRun ''n1'' ''t8'' ''t8'' newRun twoRecords))
   \<and> uniqueKey ''sessionId'' (history twoRecords)
   \<and> jor (jprop newRun ''session_id'') JNull \<notin> set (keyValues ''sessionId'' (history twoRecords))
   \<and> uniqueKey ''sessionId'' (history (ensureHistoryFromRun ''n1'' ''t8'' ''t8'' newRun twoRecords))
   \<and> dedupInvariant (history twoRecords)
   \<and> jprop searchResult ''session_id'' \<notin> set (keyValues ''sessionId'' (history twoRecords))
   \<and> dedupInvariant (history (handleSearchResult ''n1'' ''t8'' ''t8'' searchResult twoRecords))
   \<and> findIndex (\<lambda>h. get h ''sessionId'' = JStr ''s1'') (history twoRecords) = Some 0
   \<and> patchKeepsKey ''runId'' runPatch (history twoRecords ! 0) (history twoRecords)
   \<and> patchKeepsKey ''sessionId'' runPatch (history twoRecords ! 0) (history twoRecords)
   \<and> dedupInvariant (history (patchHistory (JStr ''s1'') runPatch twoRecords))
   \<and> findIndex (\<lambda>h. get h ''runId'' = JStr ''r2'') (history twoRecords) = Some 1
   \<and> patchKeepsKey ''runId'' runPatch (history twoRecords ! 1) (history twoRecords)
   \<and> patchKeepsKey ''sessionId'' runPatch (history twoRecords ! 1) (history twoRecords)
   \<and> dedupInvariant (history (patchHistoryByRunId (JStr ''r2'') runPatch twoRecords))"
proof -
  have s: "serverRunsDistinct [doneRun]"
    by (simp add: serverRunsDistinct_def doneRun_fields)
  have k: "patchKeepsKey ''runId'' runPatch recA [recA, recB]"
    "patchKeepsKey ''sessionId'' runPatch recA [recA, recB]"
    "patchKeepsKey ''runId'' runPatch recB [recA, recB]"
    "patchKeepsKey ''sessionId'' runPatch recB [recA, recB]"
    by (simp_all add: patchKeepsKey_def runPatch_fields example_keys)
  from dedup_invariant_preserved [of "[doneRun]" "[recA, recB]" "\<lambda>i. ''t5''" twoRecords
      "''n1''" "''t8''" "''t8''" newRun searchResult "JStr ''s1''" 0 runPatch "JStr ''r2''" 1]
  show ?thesis
    by (simp add: s k twoRecords_dedup twoRecords_history twoRecords_dedup [unfolded dedupInvariant_def]
        example_keys newRun_fields searchResult_fields jor_def recA_fields recB_fields)
qed

text \<open>
  C1 as stated fails. Two server runs with ids of their own but the same session give two
  projections with that session id. And \<open>ensureHistoryFromRun\<close>, which looks for the run
  id only, adds a record for run \<open>r1\<close> of session \<open>s1\<close> to a store that already holds
  the local record of session \<open>s1\<close>.
\<close>

theorem dedup_invariant_broken:
  "list_all (\<lambda>r. truthy (jprop r ''id'')) [doneRun, secondRun]
   \<and> distinct (map (\<lambda>r. jprop r ''id'') [doneRun, secondRun])
   \<and> \<not> dedupInvariant (reconcile (\<lambda>i. ''t5'') [doneRun, secondRun] [])
   \<and> dedupInvariant (history twoRecords)
   \<and> \<not> dedupInvariant (history (ensureHistoryFromRun ''n1'' ''t8'' ''t8'' doneRun twoRecords))"
proof -
  have a: "keyValues ''sessionId'' (reconcile (\<lambda>i. ''t5'') [doneRun, secondRun] [])
      = [JStr ''s1'', JStr ''s1'']"
    by (simp add: reconcile_def keyValues_def mapRunToHistory_keys doneRun_fields secondRun_fields
        jor_def nullish_def)
  have b: "keyValues ''sessionId'' (history (ensureHistoryFromRun ''n1'' ''t8'' ''t8'' doneRun twoRecords))
      = [JStr ''s1'', JStr ''s1'', JStr ''s2'']"
    by (simp add: ensureHistoryFromRun_history twoRecords_history keyValues_Cons runRecord_keys
        doneRun_fields recA_fields recB_fields jor_def nullish_def)
       (simp add: keyValues_def)
  show ?thesis
    by (simp add: dedupInvariant_def uniqueKey_def a b twoRecords_history example_keys
        serverRunsDistinct_def doneRun_fields secondRun_fields)
qed

section \<open>Reconciliation\<close>



section \<open>The cap of 100 records\<close>

text \<open>
  C3, as the code has it. The cap is on the persisted copy: \<open>saveHistory\<close> writes the
  first 100 records and leaves \<^verbatim>\<open>state.history\<close> as long as it is. After every one of a
  sequence of searches with matches (and with working storage) the history in memory is
  all new records, newest first, in front of what was there, and the persisted copy is
  its first 100 records: never more than 100, and from the hundredth insert on exactly
  the 100 newest.
\<close>

theorem persisted_copy_capped:
  "list_all (\<lambda>(newId, t1, t2, result). truthy (jprop result ''matches_count'')) xs
     \<and> xs \<noteq> [] \<and> storageWritable st \<longrightarrow>
   history (searchInserts xs st)
     = rev (map (\<lambda>(newId, t1, t2, result). searchRecord newId t1 t2 result) xs) @ history st
   \<and> persisted (searchInserts xs st) = take 100 (history (searchInserts xs st))
   \<and> length (persisted (searchInserts xs st)) \<le> 100
   \<and> (100 \<le> length xs \<longrightarrow>
        persisted (searchInserts xs st)
          = take 100 (rev (map (\<lambda>(newId, t1, t2, result). searchRecord newId t1 t2 result) xs)))"
proof (intro impI)
  assume a: "list_all (\<lambda>(newId, t1, t2, result). truthy (jprop result ''matches_count'')) xs
     \<and> xs \<noteq> [] \<and> storageWritable st"
  then have h: "history (searchInserts xs st)
     = rev (map (\<lambda>(newId, t1, t2, result). searchRecord newId t1 t2 result) xs) @ history st"
    by (simp add: searchInserts_history)
  from a have p: "persisted (searchInserts xs st) = take 100 (history (searchInserts xs st))"
    by (simp add: searchInserts_persisted)
  show "history (searchInserts xs st)
     = rev (map (\<lambda>(newId, t1, t2, result). searchRecord newId t1 t2 result) xs) @ history st
   \<and> persisted (searchInserts xs st) = take 100 (history (searchInserts xs st))
   \<and> length (persisted (searchInserts xs st)) \<le> 100
   \<and> (100 \<le> length xs \<longrightarrow>
        persisted (searchInserts xs st)
          = take 100 (rev (map (\<lambda>(newId, t1, t2, result). searchRecord newId t1 t2 result) xs)))"
    using h p by simp
qed

theorem persisted_copy_capped_witness:
  "list_all (\<lambda>(newId, t1, t2, result). truthy (jprop result ''matches_count'')) manySearches
   \<and> manySearches \<noteq> [] \<and> storageWritable initialState \<and> 100 \<le> length manySearches
   \<and> length (history (searchInserts manySearches initialState)) = 101
   \<and> length (persisted (searchInserts manySearches initialState)) = 100
   \<and> persisted (searchInserts manySearches initialState)
       = take 100 (rev (map (\<lambda>(newId, t1, t2, result). searchRecord newId t1 t2 result) manySearches))"
  using persisted_copy_capped [of manySearches initialState]
  by (simp add: manySearches_facts manySearches_nonempty initialState_fields)

text \<open>
  C3 as stated fails for the store in memory: after 101 searches from the empty state it
  holds 101 records.
\<close>

theorem store_exceeds_cap:
  "\<not> length (history (searchInserts manySearches initialState)) \<le> 100"
  by (simp add: searchInserts_history manySearches_facts initialState_fields)

section \<open>What a patch does to the store\<close>

text \<open>
  C4, as the code has it. \<open>patchHistory\<close> lays the patch over the first record with the
  session id, moves that record to the front and writes the first 100 records to storage
  when the write succeeds; \<^verbatim>\<open>updatedAt\<close> becomes the current time because both callers,
  \<open>updateHistoryFromChoose\<close> and \<open>updateHistoryFromPipeline\<close>, put it into the patch.
  \<open>patchHistoryByRunId\<close> lays the patch over the first record with the run id where it
  stands and writes the store the same way: the record keeps its position.
\<close>

theorem patch_effects:
  "(findIndex (\<lambda>h. get h ''sessionId'' = sid) (history st) = Some i \<longrightarrow>
      history (patchHistory sid p st)
        = spread (history st ! i) p # (take i (history st) @ drop (Suc i) (history st))
      \<and> (storageWritable st \<longrightarrow>
           persisted (patchHistory sid p st) = take 100 (history (patchHistory sid p st))))
   \<and> (findIndex (\<lambda>h. get h ''sessionId'' = jprop result ''session_id'') (history st) \<noteq> None \<longrightarrow>
      get (hd (history (updateHistoryFromChoose now result st))) ''updatedAt'' = JStr now)
   \<and> (findIndex (\<lambda>h. get h ''sessionId'' =
          jprop (jor (jprop result ''selection'') (JObj fmempty)) ''session_id'') (history st) \<noteq> None \<longrightarrow>
      get (hd (history (updateHistoryFromPipeline now result st))) ''updatedAt'' = JStr now)
   \<and> (findIndex (\<lambda>h. get h ''runId'' = rid) (history st) = Some j \<longrightarrow>
      history (patchHistoryByRunId rid p st) = (history st)[j := spread (history st ! j) p]
      \<and> (storageWritable st \<longrightarrow>
           persisted (patchHistoryByRunId rid p st) = take 100 (history (patchHistoryByRunId rid p st))))"
proof (intro conjI impI)
  assume f: "findIndex (\<lambda>h. get h ''sessionId'' = sid) (history st) = Some i"
  show "history (patchHistory sid p st)
        = spread (history st ! i) p # (take i (history st) @ drop (Suc i) (history st))"
    by (simp add: patchHistory_found [OF f] saveHistory_history)
  assume "storageWritable st"
  then show "persisted (patchHistory sid p st) = take 100 (history (patchHistory sid p st))"
    by (simp add: patchHistory_found [OF f] saveHistory_def)
next
  assume "findIndex (\<lambda>h. get h ''sessionId'' = jprop result ''session_id'') (history st) \<noteq> None"
  then obtain n where
    f: "findIndex (\<lambda>h. get h ''sessionId'' = jprop result ''session_id'') (history st) = Some n"
    by auto
  show "get (hd (history (updateHistoryFromChoose now result st))) ''updatedAt'' = JStr now"
    unfolding updateHistoryFromChoose_def patchHistory_found [OF f]
    by (simp add: saveHistory_history get_spread choosePatch_dom) (simp add: get_def)
next
  assume "findIndex (\<lambda>h. get h ''sessionId'' =
          jprop (jor (jprop result ''selection'') (JObj fmempty)) ''session_id'') (history st) \<noteq> None"
  then obtain n where f: "findIndex (\<lambda>h. get h ''sessionId'' =
          jprop (jor (jprop result ''selection'') (JObj fmempty)) ''session_id'') (history st) = Some n"
    by auto
  show "get (hd (history (updateHistoryFromPipeline now result st))) ''updatedAt'' = JStr now"
    unfolding updateHistoryFromPipeline_def patchHistory_found [OF f]
    by (simp add: saveHistory_history get_spread pipelinePatch_dom)
       (simp add: get_def pipelinePatch_def Let_def)
next
  assume f: "findIndex (\<lambda>h. get h ''runId'' = rid) (history st) = Some j"
  show "history (patchHistoryByRunId rid p st) = (history st)[j := spread (history st ! j) p]"
    by (simp add: patchHistoryByRunId_found [OF f] saveHistory_history)
  assume "storageWritable st"
  then show "persisted (patchHistoryByRunId rid p st) = take 100 (history (patchHistoryByRunId rid p st))"
    by (simp add: patchHistoryByRunId_found [OF f] saveHistory_def)
qed

theorem patch_effects_witness:
  "findIndex (\<lambda>h. get h ''sessionId'' = JStr ''s2'') (history twoRecords) = Some 1
   \<and> storageWritable twoRecords
   \<and> history (patchHistory (JStr ''s2'') choosePatch twoRecords) = [spread recB choosePatch, recA]
   \<and> persisted (patchHistory (JStr ''s2'') choosePatch twoRecords) = [spread recB choosePatch, recA]
   \<and> findIndex (\<lambda>h. get h ''sessionId'' = jprop chooseResult ''session_id'') (history twoRecords) \<noteq> None
   \<and> get (hd (history (updateHistoryFromChoose ''t9'' chooseResult twoRecords))) ''updatedAt'' = JStr ''t9''
   \<and> findIndex (\<lambda>h. get h ''sessionId'' =
          jprop (jor (jprop (buildPipelineResultFromRun doneRun) ''selection'') (JObj fmempty)) ''session_id'')
        (history twoRecords) \<noteq> None
   \<and> get (hd (history (updateHistoryFromPipeline ''t9'' (buildPipelineResultFromRun doneRun) twoRecords)))
         ''updatedAt'' = JStr ''t9''
   \<and> findIndex (\<lambda>h. get h ''runId'' = JStr ''r2'') (history twoRecords) = Some 1
   \<and> history (patchHistoryByRunId (JStr ''r2'') choosePatch twoRecords) = [recA, spread recB choosePatch]
   \<and> persisted (patchHistoryByRunId (JStr ''r2'') choosePatch twoRecords) = [recA, spread recB choosePatch]"
proof -
  have c: "jprop chooseResult ''session_id'' = JStr ''s1''"
    by (simp add: chooseResult_def get_def)
  have d: "jprop (jor (jprop (buildPipelineResultFromRun doneRun) ''selection'') (JObj fmempty)) ''session_id''
      = JStr ''s1''"
    by (simp add: updateHistoryFromPipeline_key doneRun_fields)
  from patch_effects [of "JStr ''s2''" twoRecords 1 choosePatch chooseResult "''t9''" "JStr ''r2''" 1]
       patch_effects [of "JStr ''s2''" twoRecords 1 choosePatch "buildPipelineResultFromRun doneRun"
          "''t9''" "JStr ''r2''" 1]
  show ?thesis
    by (simp add: c d twoRecords_history recA_fields recB_fields twoRecords_writable)
qed

text \<open>
  C4 as stated fails for the patch by run id: after \<open>updateHistoryWithSynopsis\<close> for run
  \<open>r2\<close>, whose record is second in the store, the front record is still the other one,
  and the patched record still has its old \<^verbatim>\<open>updatedAt\<close>.
\<close>

theorem patch_by_run_not_promoted:
  "findIndex (\<lambda>h. get h ''runId'' = JStr ''r2'') (history twoRecords) = Some 1
   \<and> hd (history (updateHistoryWithSynopsis (JStr ''r2'') synopsisDone twoRecords)) = recA
   \<and> get (history (updateHistoryWithSynopsis (JStr ''r2'') synopsisDone twoRecords) ! 1) ''runId''
       = JStr ''r2''
   \<and> get (history (updateHistoryWithSynopsis (JStr ''r2'') synopsisDone twoRecords) ! 1) ''synopsisStatus''
       = JStr ''done''
   \<and> get (history (updateHistoryWithSynopsis (JStr ''r2'') synopsisDone twoRecords) ! 1) ''updatedAt''
       = get recB ''updatedAt''"
proof -
  have f: "findIndex (\<lambda>h. get h ''runId'' = JStr ''r2'') (history twoRecords) = Some 1"
    by (rule twoRecords_find)
  have t: "truthy synopsisDone" by (simp add: synopsisDone_def)
  have s: "jor (jprop synopsisDone ''status'') JNull = JStr ''done''"
    by (simp add: synopsisDone_def get_def jor_def)
  show ?thesis
    by (simp add: f t s updateHistoryWithSynopsis_def patchHistoryByRunId_found [OF f]
        saveHistory_history twoRecords_history get_spread fmdom_of_list recA_fields recB_fields)
       (simp add: get_def)
qed

section \<open>Fields a patch does not name\<close>

text \<open>
  C5. A patch that does not name field \<open>k\<close> leaves \<open>k\<close> as it was: in the merge
  \<^verbatim>\<open>{...record, ...patch}\<close> itself, in the record \<open>patchHistory\<close> merges and moves to the
  front, and in the record \<open>patchHistoryByRunId\<close> merges in place.
\<close>

theorem patch_keeps_unnamed_fields:
  "k |\<notin>| fmdom p \<longrightarrow>
     get (spread r p) k = get r k
     \<and> (findIndex (\<lambda>h. get h ''sessionId'' = sid) (history st) = Some i \<longrightarrow>
          get (hd (history (patchHistory sid p st))) k = get (history st ! i) k)
     \<and> (findIndex (\<lambda>h. get h ''runId'' = rid) (history st) = Some j \<longrightarrow>
          get (history (patchHistoryByRunId rid p st) ! j) k = get (history st ! j) k)"
proof (intro impI conjI)
  assume k: "k |\<notin>| fmdom p"
  then show "get (spread r p) k = get r k" by (simp add: get_spread)
  {
    assume f: "findIndex (\<lambda>h. get h ''sessionId'' = sid) (history st) = Some i"
    show "get (hd (history (patchHistory sid p st))) k = get (history st ! i) k"
      using k by (simp add: patchHistory_found [OF f] saveHistory_history get_spread)
  }
  {
    assume f: "findIndex (\<lambda>h. get h ''runId'' = rid) (history st) = Some j"
    have "j < length (history st)" using f by (rule findIndex_Some_bound)
    then show "get (history (patchHistoryByRunId rid p st) ! j) k = get (history st ! j) k"
      using k by (simp add: patchHistoryByRunId_found [OF f] saveHistory_history get_spread)
  }
qed

theorem patch_keeps_unnamed_fields_witness:
  "''analysisText'' |\<notin>| fmdom choosePatch
   \<and> get (spread recA choosePatch) ''analysisText'' = JStr ''earlier analysis''
   \<and> findIndex (\<lambda>h. get h ''sessionId'' = JStr ''s1'') (history twoRecords) = Some 0
   \<and> get (hd (history (patchHistory (JStr ''s1'') choosePatch twoRecords))) ''analysisText''
       = JStr ''earlier analysis''
   \<and> findIndex (\<lambda>h. get h ''runId'' = JStr ''r2'') (history twoRecords) = Some 1
   \<and> get (history (patchHistoryByRunId (JStr ''r2'') choosePatch twoRecords) ! 1) ''analysisText''
       = get recB ''analysisText''"
  using patch_keeps_unnamed_fields [of "''analysisText''" choosePatch recA "JStr ''s1''" twoRecords 0
      "JStr ''r2''" 1]
  by (simp add: choosePatch_fields twoRecords_history recA_fields recB_fields)

section \<open>Patching twice\<close>

text \<open>
  C6. Applying the same session patch a second time changes nothing, as long as the patch
  does not give the record another session id (no caller's patch names \<^verbatim>\<open>sessionId\<close>);
  whatever the patch, the record the first application produced is still there, unchanged,
  at the front or right behind it. For the two callers, whose patches differ between two
  applications in the clock read of \<^verbatim>\<open>updatedAt\<close> only, applying twice equals applying once
  with the later clock read.
\<close>

theorem patch_by_session_idempotent:
  "((''sessionId'' |\<in>| fmdom p \<longrightarrow> get p ''sessionId'' = sid) \<longrightarrow>
      patchHistory sid p (patchHistory sid p st) = patchHistory sid p st)
   \<and> (findIndex (\<lambda>h. get h ''sessionId'' = sid) (history st) = Some i \<longrightarrow>
        history (patchHistory sid p (patchHistory sid p st)) ! 0 = spread (history st ! i) p
        \<or> history (patchHistory sid p (patchHistory sid p st)) ! 1 = spread (history st ! i) p)
   \<and> updateHistoryFromChoose t2 result (updateHistoryFromChoose t1 result st)
       = updateHistoryFromChoose t2 result st
   \<and> updateHistoryFromPipeline t2 result (updateHistoryFromPipeline t1 result st)
       = updateHistoryFromPipeline t2 result st"
proof (intro conjI impI)
  assume "''sessionId'' |\<in>| fmdom p \<longrightarrow> get p ''sessionId'' = sid"
  then show "patchHistory sid p (patchHistory sid p st) = patchHistory sid p st"
    by (rule patchHistory_idem)
next
  assume "findIndex (\<lambda>h. get h ''sessionId'' = sid) (history st) = Some i"
  then show "history (patchHistory sid p (patchHistory sid p st)) ! 0 = spread (history st ! i) p
        \<or> history (patchHistory sid p (patchHistory sid p st)) ! 1 = spread (history st ! i) p"
    by (rule patched_record_stays)
next
  show "updateHistoryFromChoose t2 result (updateHistoryFromChoose t1 result st)
       = updateHistoryFromChoose t2 result st"
    by (rule choose_twice)
next
  show "updateHistoryFromPipeline t2 result (updateHistoryFromPipeline t1 result st)
       = updateHistoryFromPipeline t2 result st"
    by (rule pipeline_twice)
qed

theorem patch_by_session_idempotent_witness:
  "''sessionId'' |\<notin>| fmdom choosePatch
   \<and> patchHistory (JStr ''s2'') choosePatch (patchHistory (JStr ''s2'') choosePatch twoRecords)
       = patchHistory (JStr ''s2'') choosePatch twoRecords
   \<and> findIndex (\<lambda>h. get h ''sessionId'' = JStr ''s2'') (history twoRecords) = Some 1
   \<and> history (patchHistory (JStr ''s2'') choosePatch twoRecords) = [spread recB choosePatch, recA]
   \<and> history (patchHistory (JStr ''s2'') choosePatch (patchHistory (JStr ''s2'') choosePatch twoRecords))
       = [spread recB choosePatch, recA]"
proof -
  have f: "findIndex (\<lambda>h. get h ''sessionId'' = JStr ''s2'') (history twoRecords) = Some 1"
    by (rule twoRecords_find)
  have h: "history (patchHistory (JStr ''s2'') choosePatch twoRecords) = [spread recB choosePatch, recA]"
    by (simp add: patchHistory_found [OF f] saveHistory_history twoRecords_history)
  have d: "''sessionId'' |\<notin>| fmdom choosePatch"
    by (simp add: choosePatch_fields)
  from patch_by_session_idempotent [of choosePatch "JStr ''s2''" twoRecords 1] d
  have "patchHistory (JStr ''s2'') choosePatch (patchHistory (JStr ''s2'') choosePatch twoRecords)
       = patchHistory (JStr ''s2'') choosePatch twoRecords"
    by blast
  with f h d show ?thesis by simp
qed

section \<open>The poller\<close>

text \<open>
  One step of a poller whose request was answered \<^verbatim>\<open>"done"\<close>. The pending key and the
  indicator handle are cleared, the indicator node leaves the page when the tracked key
  was this run, the run leaves the running set, its session no longer maps to it, and
  the store is the one patched from the done run. No timer is armed when the result is
  shown or need not be shown; when showing it throws, the handler arms the timer.
\<close>

lemma poll_step_done:
  assumes "pollDone (Ok data)"
  shows "pendingRunId (pollRunSettled runId (Ok data) newId t1 t2 now st) = JNull"
    and "pendingMessage (pollRunSettled runId (Ok data) newId t1 t2 now st) = None"
    and "timeline (pollRunSettled runId (Ok data) newId t1 t2 now st)
          = (if pendingMessage st \<noteq> None \<and> pendingRunId st = runId
             then removeNode (pendingMessage st) (timeline st) else timeline st)"
    and "runningRunIds (pollRunSettled runId (Ok data) newId t1 t2 now st) = runningRunIds st - {runId}"
    and "truthy (jprop (jprop data ''run'') ''session_id'') \<Longrightarrow>
         runningBySession (pollRunSettled runId (Ok data) newId t1 t2 now st)
           (jprop (jprop data ''run'') ''session_id'') \<noteq> Some runId"
    and "history (pollRunSettled runId (Ok data) newId t1 t2 now st)
          = history (patchHistory (jprop (jprop data ''run'') ''session_id'')
              (pipelinePatch now (buildPipelineResultFromRun (jprop data ''run'')))
              (ensureHistoryFromRun newId t1 t2 (jprop data ''run'') st))"
    and "tasks (pollRunSettled runId (Ok data) newId t1 t2 now st)
          = remove1 (Fetching runId) (tasks st)
            @ (case appendPipelineIfRelated (jprop data ''run'')
                      (buildPipelineResultFromRun (jprop data ''run''))
                      (updateHistoryFromPipeline now (buildPipelineResultFromRun (jprop data ''run''))
                        (ensureHistoryFromRun newId t1 t2 (jprop data ''run'')
                          (clearPendingForRun runId (jprop data ''run'') st))) of
                 Inl e \<Rightarrow> [Sleeping RUN_POLL_MS runId]
               | Inr u \<Rightarrow> [])"
proof -
  let ?run = "jprop data ''run''"
  let ?d = "updateHistoryFromPipeline now (buildPipelineResultFromRun ?run)
      (ensureHistoryFromRun newId t1 t2 ?run
        (clearPendingForRun runId ?run (st\<lparr>tasks := remove1 (Fetching runId) (tasks st)\<rparr>)))"
  let ?shown = "appendPipelineIfRelated ?run (buildPipelineResultFromRun ?run)
      (updateHistoryFromPipeline now (buildPipelineResultFromRun ?run)
        (ensureHistoryFromRun newId t1 t2 ?run (clearPendingForRun runId ?run st)))"
  have f: "pendingRunId (pollRunSettled runId (Ok data) newId t1 t2 now st) = pendingRunId ?d"
    "pendingMessage (pollRunSettled runId (Ok data) newId t1 t2 now st) = pendingMessage ?d"
    "timeline (pollRunSettled runId (Ok data) newId t1 t2 now st) = timeline ?d"
    "runningRunIds (pollRunSettled runId (Ok data) newId t1 t2 now st) = runningRunIds ?d"
    "runningBySession (pollRunSettled runId (Ok data) newId t1 t2 now st) = runningBySession ?d"
    "history (pollRunSettled runId (Ok data) newId t1 t2 now st) = history ?d"
    by (simp_all add: pollRunSettled_def pollRunTry_done [OF assms] split: sum.splits)
  show "pendingRunId (pollRunSettled runId (Ok data) newId t1 t2 now st) = JNull"
    unfolding f by (simp add: done_branch_fields)
  show "pendingMessage (pollRunSettled runId (Ok data) newId t1 t2 now st) = None"
    unfolding f by (simp add: done_branch_fields)
  show "timeline (pollRunSettled runId (Ok data) newId t1 t2 now st)
          = (if pendingMessage st \<noteq> None \<and> pendingRunId st = runId
             then removeNode (pendingMessage st) (timeline st) else timeline st)"
    unfolding f
    by (simp add: updateHistoryFromPipeline_def patchHistory_others ensureHistoryFromRun_others
        clearPendingForRun_def Let_def)
  show "runningRunIds (pollRunSettled runId (Ok data) newId t1 t2 now st) = runningRunIds st - {runId}"
    unfolding f by (simp add: done_branch_fields)
  show "history (pollRunSettled runId (Ok data) newId t1 t2 now st)
          = history (patchHistory (jprop ?run ''session_id'')
              (pipelinePatch now (buildPipelineResultFromRun ?run))
              (ensureHistoryFromRun newId t1 t2 ?run st))"
    unfolding f done_branch_history
    by (rule patchHistory_history_cong) (simp add: ensureHistoryFromRun_history)
  show "tasks (pollRunSettled runId (Ok data) newId t1 t2 now st)
          = remove1 (Fetching runId) (tasks st)
            @ (case ?shown of Inl e \<Rightarrow> [Sleeping RUN_POLL_MS runId] | Inr u \<Rightarrow> [])"
  proof (cases ?shown)
    case (Inl e)
    then show ?thesis by (simp add: pollRunSettled_done_thrown [OF assms Inl])
  next
    case (Inr u)
    then have i: "?shown = Inr ()" by simp
    show ?thesis by (simp add: pollRunSettled_done [OF assms i] i done_branch_fields)
  qed
  assume "truthy (jprop ?run ''session_id'')"
  then show "runningBySession (pollRunSettled runId (Ok data) newId t1 t2 now st)
           (jprop ?run ''session_id'') \<noteq> Some runId"
    unfolding f by (simp add: done_branch_fields clearPendingForRun_session)
qed

text \<open>
  C7. A poller that meets running, running, done, started while the operator looks at
  another record. When the done run carries no reference rows the poller does what is
  claimed: three requests, the pending state cleared, the record patched with the run's
  analysis, and nothing left with the event loop. When the done run carries its
  reference rows as one row object instead of a list, the first two steps are the same
  and the third clears the pending state and patches the record in the same way; then
  showing the result throws in \<^verbatim>\<open>buildReferenceTable\<close>, the handler of \<^verbatim>\<open>pollRun\<close> arms
  the 3500 ms timer, and a fourth request goes out: the poller has not stopped. It does
  not stop later either: when \<open>n\<close> requests in a row are answered with that run, request
  \<open>n + 1\<close> is in flight.
\<close>

theorem poller_rearms_after_done:
  "RUN_POLL_MS = 3500
   \<and> \<not> pollDone (Ok runningData) \<and> pollDone (Ok doneData) \<and> pollDone (Ok doneDataOneRow)
   \<and> requests (runPoller (JStr ''r1'') [Ok runningData, Ok runningData, Ok doneData]
         ''n1'' ''t8'' ''t8'' ''t9'' viewingB) = [JStr ''r1'', JStr ''r1'', JStr ''r1'']
   \<and> tasks (runPoller (JStr ''r1'') [Ok runningData, Ok runningData, Ok doneData]
         ''n1'' ''t8'' ''t8'' ''t9'' viewingB) = []
   \<and> get (hd (history (runPoller (JStr ''r1'') [Ok runningData, Ok runningData, Ok doneData]
         ''n1'' ''t8'' ''t8'' ''t9'' viewingB))) ''analysisText'' = JStr ''final analysis''
   \<and> appendPipeline (buildPipelineResultFromRun doneRunOneRow) = Inl TypeError
   \<and> tasks (pollRunSettled (JStr ''r1'') (Ok doneDataOneRow) ''n1'' ''t8'' ''t8'' ''t9''
         (pollRun (JStr ''r1'') viewingB)) = [Sleeping 3500 (JStr ''r1'')]
   \<and> pendingRunId (pollRunSettled (JStr ''r1'') (Ok doneDataOneRow) ''n1'' ''t8'' ''t8'' ''t9''
         (pollRun (JStr ''r1'') viewingB)) = JNull
   \<and> JStr ''r1'' \<notin> runningRunIds (pollRunSettled (JStr ''r1'') (Ok doneDataOneRow)
         ''n1'' ''t8'' ''t8'' ''t9'' (pollRun (JStr ''r1'') viewingB))
   \<and> get (hd (history (pollRunSettled (JStr ''r1'') (Ok doneDataOneRow) ''n1'' ''t8'' ''t8'' ''t9''
         (pollRun (JStr ''r1'') viewingB)))) ''analysisText'' = JStr ''final analysis''
   \<and> requests (runPoller (JStr ''r1'') [Ok runningData, Ok runningData, Ok doneDataOneRow]
         ''n1'' ''t8'' ''t8'' ''t9'' viewingB) = [JStr ''r1'', JStr ''r1'', JStr ''r1'', JStr ''r1'']
   \<and> tasks (runPoller (JStr ''r1'') [Ok runningData, Ok runningData, Ok doneDataOneRow]
         ''n1'' ''t8'' ''t8'' ''t9'' viewingB) = [Fetching (JStr ''r1'')]
   \<and> requests (runPoller (JStr ''r1'') (replicate n (Ok doneDataOneRow))
         ''n1'' ''t8'' ''t8'' ''t9'' viewingB) = replicate (Suc n) (JStr ''r1'')
   \<and> tasks (runPoller (JStr ''r1'') (replicate n (Ok doneDataOneRow))
         ''n1'' ''t8'' ''t8'' ''t9'' viewingB) = [Fetching (JStr ''r1'')]"
proof -
  let ?r = "JStr ''r1''"
  have t: "Fetching ?r \<notin> set (tasks viewingB)" "Sleeping RUN_POLL_MS ?r \<notin> set (tasks viewingB)"
    by (simp_all add: viewingB_tasks)
  have n: "list_all (\<lambda>r. \<not> pollDone r) [Ok runningData, Ok runningData]"
    by (simp add: runningData_pending)
  have l: "[Ok runningData, Ok runningData, Ok doneData] = [Ok runningData, Ok runningData] @ [Ok doneData]"
    "[Ok runningData, Ok runningData, Ok doneDataOneRow]
       = [Ok runningData, Ok runningData] @ [Ok doneDataOneRow]"
    by simp_all
  have s1: "appendPipelineIfRelated (jprop doneData ''run'') (buildPipelineResultFromRun (jprop doneData ''run''))
       (updateHistoryFromPipeline ''t9'' (buildPipelineResultFromRun (jprop doneData ''run''))
         (ensureHistoryFromRun ''n1'' ''t8'' ''t8'' (jprop doneData ''run'')
           (clearPendingForRun ?r (jprop doneData ''run'') viewingB))) = Inr ()"
    unfolding doneData_run
    by (simp add: viewingB_done_related [OF disjI1] viewingB_fields doneRun_fields doneRun_shown)
  have s2: "appendPipelineIfRelated (jprop doneDataOneRow ''run'')
       (buildPipelineResultFromRun (jprop doneDataOneRow ''run''))
       (updateHistoryFromPipeline ''t9'' (buildPipelineResultFromRun (jprop doneDataOneRow ''run''))
         (ensureHistoryFromRun ''n1'' ''t8'' ''t8'' (jprop doneDataOneRow ''run'')
           (clearPendingForRun ?r (jprop doneDataOneRow ''run'') viewingB))) = Inl TypeError"
    unfolding doneDataOneRow_run
    by (simp add: viewingB_done_related [OF disjI1] viewingB_fields doneRunOneRow_fields doneRunOneRow_thrown)
  note e1 = runPoller_done_after_retries [OF t n doneData_done s1, folded l]
  note e2 = runPoller_rearmed_after_done [OF t n doneDataOneRow_done s2, folded l]
  have s3: "appendPipelineIfRelated (jprop doneDataOneRow ''run'')
       (buildPipelineResultFromRun (jprop doneDataOneRow ''run''))
       (updateHistoryFromPipeline ''t9'' (buildPipelineResultFromRun (jprop doneDataOneRow ''run''))
         (ensureHistoryFromRun ''n1'' ''t8'' ''t8'' (jprop doneDataOneRow ''run'')
           (clearPendingForRun ?r (jprop doneDataOneRow ''run'') (pollRun ?r viewingB)))) = Inl TypeError"
    by (simp only: done_branch_shown_pollRun s2)
  note e3 = pollRunSettled_done_thrown [OF doneDataOneRow_done s3]
  have h: "history ((pollRun ?r viewingB)\<lparr>tasks := ts\<rparr>) = [recB, recRun]" for ts
    by (simp add: pollRun_def viewingB_fields)
  show ?thesis
  proof (intro conjI)
    show "RUN_POLL_MS = 3500" by (simp add: RUN_POLL_MS_def)
    show "\<not> pollDone (Ok runningData)" by (rule runningData_pending)
    show "pollDone (Ok doneData)" by (rule doneData_done)
    show "pollDone (Ok doneDataOneRow)" by (rule doneDataOneRow_done)
    show "requests (runPoller ?r [Ok runningData, Ok runningData, Ok doneData]
         ''n1'' ''t8'' ''t8'' ''t9'' viewingB) = [?r, ?r, ?r]"
      unfolding e1 by (simp add: done_branch_fields viewingB_tasks)
    show "tasks (runPoller ?r [Ok runningData, Ok runningData, Ok doneData]
         ''n1'' ''t8'' ''t8'' ''t9'' viewingB) = []"
      unfolding e1 by (simp add: done_branch_fields viewingB_tasks)
    show "get (hd (history (runPoller ?r [Ok runningData, Ok runningData, Ok doneData]
         ''n1'' ''t8'' ''t8'' ''t9'' viewingB))) ''analysisText'' = JStr ''final analysis''"
      unfolding e1 done_branch_history doneData_run doneRun_fields
      by (simp add: viewingB_done_patched [OF disjI1] viewingB_fields doneRun_fields get_spread
          pipelinePatch_dom doneRun_patch_text)
    show "appendPipeline (buildPipelineResultFromRun doneRunOneRow) = Inl TypeError"
      by (rule doneRunOneRow_thrown)
    show "tasks (pollRunSettled ?r (Ok doneDataOneRow) ''n1'' ''t8'' ''t8'' ''t9''
         (pollRun ?r viewingB)) = [Sleeping 3500 ?r]"
      unfolding e3 by (simp add: pollRun_def viewingB_tasks RUN_POLL_MS_def)
    show "pendingRunId (pollRunSettled ?r (Ok doneDataOneRow) ''n1'' ''t8'' ''t8'' ''t9''
         (pollRun ?r viewingB)) = JNull"
      unfolding e3 by (simp add: done_branch_fields)
    show "?r \<notin> runningRunIds (pollRunSettled ?r (Ok doneDataOneRow)
         ''n1'' ''t8'' ''t8'' ''t9'' (pollRun ?r viewingB))"
      unfolding e3 by (simp add: done_branch_fields)
    show "get (hd (history (pollRunSettled ?r (Ok doneDataOneRow) ''n1'' ''t8'' ''t8'' ''t9''
         (pollRun ?r viewingB)))) ''analysisText'' = JStr ''final analysis''"
      unfolding e3 doneDataOneRow_run
      by (simp add: done_branch_history doneRunOneRow_fields
          viewingB_done_patched [OF disjI1 [OF h]] get_spread pipelinePatch_dom doneRunOneRow_patch_text)
    show "requests (runPoller ?r [Ok runningData, Ok runningData, Ok doneDataOneRow]
         ''n1'' ''t8'' ''t8'' ''t9'' viewingB) = [?r, ?r, ?r, ?r]"
      unfolding e2 by (simp add: pollRun_def done_branch_fields viewingB_tasks)
    show "tasks (runPoller ?r [Ok runningData, Ok runningData, Ok doneDataOneRow]
         ''n1'' ''t8'' ''t8'' ''t9'' viewingB) = [Fetching ?r]"
      unfolding e2 by (simp add: pollRun_def done_branch_fields viewingB_tasks)
    show "requests (runPoller ?r (replicate n (Ok doneDataOneRow))
         ''n1'' ''t8'' ''t8'' ''t9'' viewingB) = replicate (Suc n) ?r"
      using oneRow_rounds [OF disjI1 [OF viewingB_fields(1)] t, of n "''n1''" "''t8''" "''t8''" "''t9''"]
      by (simp add: runPoller_def viewingB_tasks)
    show "tasks (runPoller ?r (replicate n (Ok doneDataOneRow))
         ''n1'' ''t8'' ''t8'' ''t9'' viewingB) = [Fetching ?r]"
      using oneRow_rounds [OF disjI1 [OF viewingB_fields(1)] t, of n "''n1''" "''t8''" "''t8''" "''t9''"]
      by (simp add: runPoller_def viewingB_tasks)
  qed
qed

section \<open>The pending key\<close>

text \<open>
  C8, as the code has it. \<open>maybeShowRunningForRecord\<close> computes the pending key (the
  confirmed running run id, else the token \<^verbatim>\<open>session:<id>\<close>); with no record, with
  nothing in flight for the record, or with a key equal to the tracked one it changes
  nothing. Otherwise it replaces the tracked key, swaps the tracked indicator node for a
  new one and, when a running run id is confirmed, sends a status request for it, on top
  of whatever pollers are already active. When the tracked node was the only indicator
  mounted it stays so, and after \<open>renderHistoryConversation\<close> at most one is mounted.
\<close>

theorem pending_key_dedup:
  "maybeShowRunningForRecord node None st = st
   \<and> pendingKeyFor r st =
       (if truthy (getRunningRunIdForRecord (Some r) st) then getRunningRunIdForRecord (Some r) st
        else JStr (''session:'' @ toStr (get r ''sessionId'')))
   \<and> (pendingRunId st = pendingKeyFor r st \<longrightarrow> maybeShowRunningForRecord node (Some r) st = st)
   \<and> (\<not> truthy (getRunningRunIdForRecord (Some r) st)
        \<and> \<not> (truthy (get r ''sessionId'') \<and> get r ''sessionId'' \<in> pendingSessions st) \<longrightarrow>
        maybeShowRunningForRecord node (Some r) st = st)
   \<and> ((truthy (getRunningRunIdForRecord (Some r) st)
         \<or> truthy (get r ''sessionId'') \<and> get r ''sessionId'' \<in> pendingSessions st)
        \<and> pendingRunId st \<noteq> pendingKeyFor r st \<longrightarrow>
        (let st' = maybeShowRunningForRecord node (Some r) st;
             runId = getRunningRunIdForRecord (Some r) st
         in pendingRunId st' = pendingKeyFor r st \<and> pendingMessage st' = Some node
            \<and> timeline st' = removeNode (pendingMessage st) (timeline st) @ [node]
            \<and> tasks st' = tasks st @ (if truthy runId then [Fetching runId] else [])
            \<and> requests st' = requests st @ (if truthy runId then [runId] else [])))
   \<and> (indicatorTracked st \<longrightarrow> indicatorTracked (maybeShowRunningForRecord node rcd st))
   \<and> length (timeline (renderHistoryConversation node r st)) \<le> 1"
proof (intro conjI impI)
  show "maybeShowRunningForRecord node None st = st"
    by (simp add: maybeShowRunningForRecord_def)
next
  show "pendingKeyFor r st =
       (if truthy (getRunningRunIdForRecord (Some r) st) then getRunningRunIdForRecord (Some r) st
        else JStr (''session:'' @ toStr (get r ''sessionId'')))"
    by (rule pendingKeyFor_cases)
next
  assume "pendingRunId st = pendingKeyFor r st"
  then show "maybeShowRunningForRecord node (Some r) st = st"
    by (rule maybeShow_same_key)
next
  assume "\<not> truthy (getRunningRunIdForRecord (Some r) st)
        \<and> \<not> (truthy (get r ''sessionId'') \<and> get r ''sessionId'' \<in> pendingSessions st)"
  then show "maybeShowRunningForRecord node (Some r) st = st"
    by (intro maybeShow_nothing_running) simp_all
next
  assume a: "(truthy (getRunningRunIdForRecord (Some r) st)
         \<or> truthy (get r ''sessionId'') \<and> get r ''sessionId'' \<in> pendingSessions st)
        \<and> pendingRunId st \<noteq> pendingKeyFor r st"
  then have s: "truthy (getRunningRunIdForRecord (Some r) st)
      \<or> truthy (get r ''sessionId'') \<and> get r ''sessionId'' \<in> pendingSessions st"
    and k: "pendingRunId st \<noteq> pendingKeyFor r st" by simp_all
  show "let st' = maybeShowRunningForRecord node (Some r) st;
             runId = getRunningRunIdForRecord (Some r) st
         in pendingRunId st' = pendingKeyFor r st \<and> pendingMessage st' = Some node
            \<and> timeline st' = removeNode (pendingMessage st) (timeline st) @ [node]
            \<and> tasks st' = tasks st @ (if truthy runId then [Fetching runId] else [])
            \<and> requests st' = requests st @ (if truthy runId then [runId] else [])"
    unfolding maybeShow_new_key [OF s k] by (simp add: Let_def pollRun_def)
next
  assume "indicatorTracked st"
  then show "indicatorTracked (maybeShowRunningForRecord node rcd st)"
    by (rule maybeShow_keeps_indicator)
next
  show "length (timeline (renderHistoryConversation node r st)) \<le> 1"
    by (rule indicatorTracked_length) (rule render_indicator)
qed

theorem pending_key_dedup_witness:
  "pendingKeyFor recRun viewingB = JStr ''r1'' \<and> pendingRunId viewingB = JNull
   \<and> truthy (getRunningRunIdForRecord (Some recRun) viewingB)
   \<and> tasks (maybeShowRunningForRecord 11 (Some recRun) viewingB) = [Fetching (JStr ''r1'')]
   \<and> pendingRunId (maybeShowRunningForRecord 11 (Some recRun) viewingB) = JStr ''r1''
   \<and> timeline (maybeShowRunningForRecord 11 (Some recRun) viewingB) = [11]
   \<and> maybeShowRunningForRecord 12 (Some recRun) (maybeShowRunningForRecord 11 (Some recRun) viewingB)
       = maybeShowRunningForRecord 11 (Some recRun) viewingB
   \<and> \<not> truthy (getRunningRunIdForRecord (Some recB) viewingB)
   \<and> maybeShowRunningForRecord 13 (Some recB) viewingB = viewingB
   \<and> indicatorTracked viewingB
   \<and> indicatorTracked (maybeShowRunningForRecord 11 (Some recRun) viewingB)"
proof -
  let ?st1 = "maybeShowRunningForRecord 11 (Some recRun) viewingB"
  have k: "pendingKeyFor recRun viewingB = JStr ''r1''"
    by (simp add: pendingKeyFor_cases viewingB_running)
  have t: "indicatorTracked viewingB"
    by (simp add: indicatorTracked_def viewingB_running)
  from pending_key_dedup [of 11 viewingB recRun "Some recRun"]
  have first: "pendingRunId ?st1 = JStr ''r1''" "tasks ?st1 = [Fetching (JStr ''r1'')]"
    "timeline ?st1 = [11]" "indicatorTracked ?st1"
    by (simp_all add: k t viewingB_running viewingB_tasks Let_def removeNode_def)
  have "pendingRunId ?st1 = pendingKeyFor recRun ?st1"
    by (simp add: first pendingKeyFor_after_show k)
  with pending_key_dedup [of 12 ?st1 recRun]
  have second: "maybeShowRunningForRecord 12 (Some recRun) ?st1 = ?st1" by blast
  from pending_key_dedup [of 13 viewingB recB]
  have third: "maybeShowRunningForRecord 13 (Some recB) viewingB = viewingB"
    by (simp add: viewingB_running recB_fields)
  from k t first second third show ?thesis
    by (simp add: viewingB_running)
qed

text \<open>
  C8 as stated fails: opening the record of running run \<open>r1\<close> and then the record of
  running run \<open>r2\<close> leaves two pollers active, and going back to the record of \<open>r1\<close>
  starts a second poller for \<open>r1\<close> while the first is still active.
\<close>

theorem pollers_not_deduplicated:
  "tasks (onHistoryClick 12 ''b'' (onHistoryClick 11 ''r1'' twoRunning))
     = [Fetching (JStr ''r1''), Fetching (JStr ''r2'')]
   \<and> tasks (onHistoryClick 13 ''r1'' (onHistoryClick 12 ''b'' (onHistoryClick 11 ''r1'' twoRunning)))
     = [Fetching (JStr ''r1''), Fetching (JStr ''r2''), Fetching (JStr ''r1'')]"
  unfolding twoRunning_first_click twoRunning_second_click
  by (simp add: onHistoryClick_def renderHistoryConversation_def maybeShowRunningForRecord_def
      getRunningRunIdForRecord_def pendingKeyFor_def jor_def pollRun_def removeNode_def
      twoRunning_def initialState_def recRun_fields recB_fields Let_def)

section \<open>Patching a key nobody holds\<close>

text \<open>
  C9. When no record of the store carries the given session id, \<open>patchHistory\<close> returns
  the state it was given, and so does \<open>patchHistoryByRunId\<close> when no record carries the
  given run id: the history, the active pointer and the persisted copy are all
  untouched, no record appears, and the functions have no failing branch.
\<close>

theorem patch_missing_key_noop:
  "((\<forall>h \<in> set (history st). get h ''sessionId'' \<noteq> sid) \<longrightarrow> patchHistory sid p st = st)
   \<and> ((\<forall>h \<in> set (history st). get h ''runId'' \<noteq> rid) \<longrightarrow> patchHistoryByRunId rid p st = st)"
proof (intro conjI impI)
  assume "\<forall>h \<in> set (history st). get h ''sessionId'' \<noteq> sid"
  then have "findIndex (\<lambda>h. get h ''sessionId'' = sid) (history st) = None"
    by (simp add: findIndex_None_iff)
  then show "patchHistory sid p st = st"
    by (simp add: patchHistory_def)
next
  assume "\<forall>h \<in> set (history st). get h ''runId'' \<noteq> rid"
  then have "findIndex (\<lambda>h. get h ''runId'' = rid) (history st) = None"
    by (simp add: findIndex_None_iff)
  then show "patchHistoryByRunId rid p st = st"
    by (simp add: patchHistoryByRunId_def)
qed

theorem patch_missing_key_noop_witness:
  "list_all (\<lambda>h. get h ''sessionId'' \<noteq> JStr ''s9'') (history twoRecords)
   \<and> patchHistory (JStr ''s9'') choosePatch twoRecords = twoRecords
   \<and> list_all (\<lambda>h. get h ''runId'' \<noteq> JStr ''r9'') (history twoRecords)
   \<and> patchHistoryByRunId (JStr ''r9'') choosePatch twoRecords = twoRecords"
  using patch_missing_key_noop [of twoRecords "JStr ''s9''" choosePatch "JStr ''r9''"]
  by (simp add: twoRecords_history recA_fields recB_fields)

section \<open>The active record pointer\<close>

text \<open>
  C10. When \<open>patchHistory\<close> finds a record it sets \<open>activeHistoryId\<close> to the id of that
  record (the record now at the front; its id is the old one unless the patch names
  \<^verbatim>\<open>id\<close>). \<open>patchHistoryByRunId\<close> never changes the pointer. A poller that sees its
  run done patches by session, so the pointer moves to the run's record whatever record
  was active before.
\<close>

theorem active_pointer_follows_session_patch:
  "(findIndex (\<lambda>h. get h ''sessionId'' = sid) (history st) = Some i \<longrightarrow>
      activeHistoryId (patchHistory sid p st) = get (hd (history (patchHistory sid p st))) ''id''
      \<and> (''id'' |\<notin>| fmdom p \<longrightarrow>
           activeHistoryId (patchHistory sid p st) = get (history st ! i) ''id''))
   \<and> activeHistoryId (patchHistoryByRunId rid p st) = activeHistoryId st
   \<and> (pollDone (Ok data)
        \<and> findIndex (\<lambda>h. get h ''sessionId'' = jprop (jprop data ''run'') ''session_id'')
             (history (ensureHistoryFromRun newId t1 t2 (jprop data ''run'') st)) = Some j \<longrightarrow>
      activeHistoryId (pollRunSettled runId (Ok data) newId t1 t2 now st)
        = get (history (ensureHistoryFromRun newId t1 t2 (jprop data ''run'') st) ! j) ''id'')"
proof (intro conjI impI)
  assume f: "findIndex (\<lambda>h. get h ''sessionId'' = sid) (history st) = Some i"
  show "activeHistoryId (patchHistory sid p st) = get (hd (history (patchHistory sid p st))) ''id''"
    by (simp add: patchHistory_found [OF f] saveHistory_active saveHistory_history)
  assume "''id'' |\<notin>| fmdom p"
  then show "activeHistoryId (patchHistory sid p st) = get (history st ! i) ''id''"
    by (simp add: patchHistory_active [OF f] get_spread)
next
  show "activeHistoryId (patchHistoryByRunId rid p st) = activeHistoryId st"
    by (rule patchHistoryByRunId_active)
next
  let ?run = "jprop data ''run''"
  let ?st0 = "clearPendingForRun runId ?run (st\<lparr>tasks := remove1 (Fetching runId) (tasks st)\<rparr>)"
  assume a: "pollDone (Ok data)
        \<and> findIndex (\<lambda>h. get h ''sessionId'' = jprop ?run ''session_id'')
             (history (ensureHistoryFromRun newId t1 t2 ?run st)) = Some j"
  have h: "history (ensureHistoryFromRun newId t1 t2 ?run ?st0)
      = history (ensureHistoryFromRun newId t1 t2 ?run st)"
    by (simp add: ensureHistoryFromRun_history clearPendingForRun_history)
  from a have f: "findIndex (\<lambda>h. get h ''sessionId'' = jprop ?run ''session_id'')
             (history (ensureHistoryFromRun newId t1 t2 ?run ?st0)) = Some j"
    by (simp only: h)
  have "activeHistoryId (pollRunSettled runId (Ok data) newId t1 t2 now st)
      = get (spread (history (ensureHistoryFromRun newId t1 t2 ?run ?st0) ! j)
              (pipelinePatch now (buildPipelineResultFromRun ?run))) ''id''"
    using a
    by (simp only: pollRunSettled_done_active updateHistoryFromPipeline_def
        updateHistoryFromPipeline_key patchHistory_active [OF f])
  then show "activeHistoryId (pollRunSettled runId (Ok data) newId t1 t2 now st)
        = get (history (ensureHistoryFromRun newId t1 t2 ?run st) ! j) ''id''"
    by (simp add: get_spread pipelinePatch_dom h)
qed

theorem active_pointer_follows_session_patch_witness:
  "findIndex (\<lambda>h. get h ''sessionId'' = JStr ''s1'') (history viewingB) = Some 1
   \<and> ''id'' |\<notin>| fmdom choosePatch
   \<and> activeHistoryId viewingB = JStr ''b''
   \<and> activeHistoryId (patchHistory (JStr ''s1'') choosePatch viewingB) = JStr ''r1''
   \<and> pollDone (Ok doneData)
   \<and> activeHistoryId (pollRunSettled (JStr ''r1'') (Ok doneData) ''n1'' ''t8'' ''t8'' ''t9'' viewingB)
       = JStr ''r1''"
proof -
  have e: "history (ensureHistoryFromRun ''n1'' ''t8'' ''t8'' doneRun viewingB) = [recB, recRun]"
    by (simp add: ensureHistoryFromRun_history viewingB_fields doneRun_fields recRun_fields recB_fields)
  from active_pointer_follows_session_patch
    [of "JStr ''s1''" viewingB 1 choosePatch "JStr ''r1''" doneData "''n1''" "''t8''" "''t8''" 1
       "JStr ''r1''" "''t9''"]
  show ?thesis
    by (auto simp: doneData_run doneData_done e doneRun_fields viewingB_fields
        choosePatch_fields recRun_fields recB_fields)
qed

end
